theory Spec2Isabelle
  imports Main "HOL-Library.AList"
begin

section \<open>The script loader of \<^verbatim>\<open>foundation/Script/loadScript.ts\<close>\<close>

text \<open>
  \<^verbatim>\<open>loadScript(props)\<close> injects a \<^verbatim>\<open><script>\<close> element into the document and keeps four
  module-level caches and one module-level array (\<^verbatim>\<open>ignoreProps\<close>). The embedding threads
  all of them, together with the part of the browser the function touches (created
  elements, promises, the animation-frame queue, the children of \<^verbatim>\<open>document.head\<close> and
  \<^verbatim>\<open>document.body\<close>), through an explicit state record.
\<close>

subsection \<open>JavaScript values and descriptors\<close>

text \<open>
  Modelled from the spec: the type \<^verbatim>\<open>ScriptProps\<close> of \<^verbatim>\<open>types.ts\<close>, which is not among the
  source files. The descriptor has the fields \<^verbatim>\<open>id\<close>, \<^verbatim>\<open>src\<close>, \<^verbatim>\<open>children\<close>,
  \<^verbatim>\<open>dangerouslySetInnerHTML\<close>, \<^verbatim>\<open>target\<close>, \<^verbatim>\<open>load\<close>, \<^verbatim>\<open>reload\<close>, \<^verbatim>\<open>onLoad\<close>, \<^verbatim>\<open>onError\<close>,
  \<^verbatim>\<open>onReady\<close> and the attributes of a \<^verbatim>\<open><script>\<close> tag; these are the values they can
  hold. \<open>JFun n\<close> is the caller's function number \<open>n\<close>, which returns when it is
  called; \<open>JThrows n\<close> is a caller's function that throws its exception number \<open>n\<close> when
  it is called; \<open>JNoop\<close> is the default \<^verbatim>\<open>() => {}\<close> of \<^verbatim>\<open>onError\<close>; \<open>JHtml h\<close> is an object
  \<^verbatim>\<open>{__html: h}\<close> (\<open>None\<close>: the field is missing); \<open>JArr\<close> is an array of strings.
\<close>

datatype jsval =
    JUndefined
  | JNull
  | JBool bool
  | JNum int
  | JStr string
  | JArr "string list"
  | JFun nat
  | JThrows nat
  | JNoop
  | JHtml "string option"

text \<open>
  A descriptor is the list of its own properties in insertion order, which is the list
  \<^verbatim>\<open>Object.entries(props)\<close> returns.
\<close>

type_synonym props = "(string \<times> jsval) list"

definition getProp :: "props \<Rightarrow> string \<Rightarrow> jsval" where
  "getProp props k = (case map_of props k of None \<Rightarrow> JUndefined | Some v \<Rightarrow> v)"

text \<open>A destructuring default \<^verbatim>\<open>{x = d} = props\<close> applies to \<^verbatim>\<open>undefined\<close> only.\<close>

definition withDefault :: "jsval \<Rightarrow> jsval \<Rightarrow> jsval" where
  "withDefault v d = (if v = JUndefined then d else v)"

fun truthy :: "jsval \<Rightarrow> bool" where
  "truthy JUndefined = False"
| "truthy JNull = False"
| "truthy (JBool b) = b"
| "truthy (JNum n) = (n \<noteq> 0)"
| "truthy (JStr s) = (s \<noteq> [])"
| "truthy (JArr xs) = True"
| "truthy (JFun f) = True"
| "truthy (JThrows f) = True"
| "truthy JNoop = True"
| "truthy (JHtml h) = True"

text \<open>
  \<^verbatim>\<open>(id ?? '') + (src ?? '')\<close>. \<^verbatim>\<open>ScriptProps\<close> types \<^verbatim>\<open>id\<close> and \<^verbatim>\<open>src\<close> as strings;
  a nullish value gives the empty string.
\<close>

fun orEmpty :: "jsval \<Rightarrow> string" where
  "orEmpty (JStr s) = s"
| "orEmpty v = []"

definition scriptKey :: "props \<Rightarrow> string" where
  "scriptKey props = orEmpty (getProp props ''id'') @ orEmpty (getProp props ''src'')"

subsection \<open>Attribute names\<close>

definition ignoreProps_init :: "string list" where
  "ignoreProps_init =
     [''children'', ''dangerouslySetInnerHTML'', ''onError'', ''onLoad'', ''onReady'',
      ''load'', ''target'', ''reload'']"

definition DOMAttributeNames :: "(string \<times> string) list" where
  "DOMAttributeNames =
     [(''acceptCharset'', ''accept-charset''),
      (''className'', ''class''),
      (''htmlFor'', ''for''),
      (''httpEquiv'', ''http-equiv''),
      (''noModule'', ''noModule'')]"

text \<open>
  Lower-casing of the ASCII letters. \<^verbatim>\<open>String.prototype.toLowerCase\<close> also lower-cases
  letters beyond ASCII, which a string of bytes does not show: the model follows the code
  on ASCII names (\<open>plainName\<close> below), and the statements about names are made for these.
\<close>

definition upperLower :: "(char \<times> char) list" where
  "upperLower = zip ''ABCDEFGHIJKLMNOPQRSTUVWXYZ'' ''abcdefghijklmnopqrstuvwxyz''"

definition lowerChar :: "char \<Rightarrow> char" where
  "lowerChar c = (case map_of upperLower c of None \<Rightarrow> c | Some d \<Rightarrow> d)"

definition toLowerCase :: "string \<Rightarrow> string" where
  "toLowerCase s = map lowerChar s"

text \<open>
  \<^verbatim>\<open>DOMAttributeNames[k] || k.toLowerCase()\<close>, for the table's own entries. The table is a
  plain object, so for a member name of \<^verbatim>\<open>Object.prototype\<close> (\<open>objectPrototypeNames\<close>) the
  lookup yields that member, and \<^verbatim>\<open>setAttribute\<close> then throws on its string form. Such a name
  is no field of \<^verbatim>\<open>ScriptProps\<close>; \<open>plainName\<close> excludes it.
\<close>

definition attrName :: "string \<Rightarrow> string" where
  "attrName k =
     (case map_of DOMAttributeNames k of
        Some a \<Rightarrow> if a \<noteq> [] then a else toLowerCase k
      | None \<Rightarrow> toLowerCase k)"

text \<open>
  \<^verbatim>\<open>script.setAttribute(attr, value)\<close> on an HTML element of an HTML document: the DOM
  lower-cases the name, and a second call with the same name replaces the value and
  keeps the attribute's position. The value is kept as the JavaScript value handed over
  (the DOM stores its string form).
\<close>

definition setAttribute :: "string \<Rightarrow> jsval \<Rightarrow> (string \<times> jsval) list \<Rightarrow> (string \<times> jsval) list" where
  "setAttribute name v attrs = AList.update (toLowerCase name) v attrs"

definition getAttribute :: "(string \<times> jsval) list \<Rightarrow> string \<Rightarrow> jsval option" where
  "getAttribute attrs name = map_of attrs (toLowerCase name)"

text \<open>
  The loop over \<^verbatim>\<open>Object.entries(props)\<close>: an entry whose value is \<^verbatim>\<open>undefined\<close> or whose
  name is in \<^verbatim>\<open>ignoreProps\<close> is skipped, every other one is set as an attribute.
\<close>

fun spreadProps :: "string list \<Rightarrow> props \<Rightarrow> (string \<times> jsval) list \<Rightarrow> (string \<times> jsval) list" where
  "spreadProps ignore [] attrs = attrs"
| "spreadProps ignore ((k, v) # rest) attrs =
     (if v = JUndefined \<or> k \<in> set ignore then spreadProps ignore rest attrs
      else spreadProps ignore rest (setAttribute (attrName k) v attrs))"




subsection \<open>Script content\<close>

text \<open>
  The model strips the ASCII white space; \<^verbatim>\<open>String.prototype.trim\<close> also strips the white
  space beyond ASCII. No statement below is about the body of the element.
\<close>

definition isSpace :: "char \<Rightarrow> bool" where
  "isSpace c = (c \<in> set [CHR 0x09, CHR 0x0A, CHR 0x0B, CHR 0x0C, CHR 0x0D, CHR '' ''])"

definition trim :: "string \<Rightarrow> string" where
  "trim s = rev (dropWhile isSpace (rev (dropWhile isSpace s)))"

datatype content = NoContent | InnerHTML string | TextContent string

text \<open>\<^verbatim>\<open>(dangerouslySetInnerHTML.__html || '').trim()\<close>\<close>

fun htmlOf :: "jsval \<Rightarrow> string" where
  "htmlOf (JHtml (Some h)) = trim h"
| "htmlOf v = []"

text \<open>
  \<^verbatim>\<open>typeof children === 'string' ? children : Array.isArray(children) ? children.join('') : ''\<close>
\<close>

fun childrenText :: "jsval \<Rightarrow> string" where
  "childrenText (JStr s) = s"
| "childrenText (JArr xs) = concat xs"
| "childrenText v = []"

definition scriptContent :: "jsval \<Rightarrow> jsval \<Rightarrow> content" where
  "scriptContent dangerouslySetInnerHTML children =
     (if truthy dangerouslySetInnerHTML then InnerHTML (htmlOf dangerouslySetInnerHTML)
      else if truthy children then TextContent (childrenText children)
      else NoContent)"

subsection \<open>Results, promises, elements\<close>

text \<open>
  Modelled from the spec: the type \<^verbatim>\<open>ScriptResponse\<close> of \<^verbatim>\<open>types.ts\<close>, the result object
  \<^verbatim>\<open>{status: boolean, event: <browser event | string>}\<close>. \<open>EvBrowser n\<close> is the browser's
  event object number \<open>n\<close>.
\<close>

datatype evt = EvStr string | EvBrowser nat

record ScriptResponse =
  status :: bool
  event :: evt

text \<open>
  What calling a value throws: nothing for a function that returns, the exception of a
  function that throws, and a \<^verbatim>\<open>TypeError\<close> for a value that is no function.
\<close>

datatype thrown = ThrownBy nat | TypeError

fun callThrows :: "jsval \<Rightarrow> thrown option" where
  "callThrows (JFun f) = None"
| "callThrows JNoop = None"
| "callThrows (JThrows f) = Some (ThrownBy f)"
| "callThrows v = Some TypeError"

text \<open>A promise is rejected with a result object, or with what a callback threw.\<close>

datatype rejection = WithResponse ScriptResponse | WithThrown thrown

datatype promiseState = Pending | Fulfilled ScriptResponse | Rejected rejection

text \<open>
  \<open>loadPromise\<close>: the promise \<^verbatim>\<open>new Promise(...).catch(...)\<close> of one created element, with
  what its \<^verbatim>\<open>catch\<close> handler captured.
\<close>

record loadPromise =
  settled :: promiseState
  c_key :: string
  c_src :: jsval
  c_onError :: jsval

text \<open>
  A created \<^verbatim>\<open><script>\<close> element, with what its \<^verbatim>\<open>onload\<close> and \<^verbatim>\<open>onerror\<close> handlers
  captured; \<open>h_promise\<close> is the promise their \<^verbatim>\<open>resolve\<close> and \<^verbatim>\<open>reject\<close> belong to.
\<close>

record scriptElement =
  attributes :: "(string \<times> jsval) list"
  body :: content
  h_onLoad :: jsval
  h_onReady :: jsval
  h_key :: string
  h_src :: jsval
  h_promise :: nat

text \<open>
  Modelled from the spec: the type \<^verbatim>\<open>ScriptCacheProps\<close> of \<^verbatim>\<open>types.ts\<close>, the value type of
  \<^verbatim>\<open>ScriptCache\<close>: the pending result and the owned script element. \<^verbatim>\<open>loadScript\<close> reads
  both fields with \<^verbatim>\<open>?.\<close>, so either may be missing.
\<close>

record ScriptCacheProps =
  promise :: "nat option"
  script :: "nat option"

text \<open>
  \<^verbatim>\<open>loadScript\<close> is an \<^verbatim>\<open>async\<close> function: every call returns a promise of its own, never
  one that existed before. \<open>Resolved r\<close>: the new promise is fulfilled with \<open>r\<close> (the
  function returned \<^verbatim>\<open>Promise.resolve(r)\<close>). \<open>Follows p\<close>: the function returned the promise
  number \<open>p\<close> of the store, and the new promise follows it: it is pending while \<open>p\<close> is,
  and settles as \<open>p\<close> settles.
\<close>

datatype ret = Resolved ScriptResponse | Follows nat

text \<open>
  The callbacks \<^verbatim>\<open>appendScript(target, script)\<close> and \<^verbatim>\<open>removeScript(target, script)\<close>
  handed to \<^verbatim>\<open>requestAnimationFrame\<close>.
\<close>

datatype frameTask = AppendTask jsval nat | RemoveTask jsval nat

text \<open>
  Calls of the caller's functions and of \<^verbatim>\<open>logScriptPerformance\<close>, in order.
  Modelled from the spec: \<^verbatim>\<open>logScriptPerformance.ts\<close> is not among the source files; it is
  the diagnostic hook that is given the key and the source URL, and only its call is
  recorded.
\<close>

datatype arg = ArgEvent evt | ArgResponse ScriptResponse

datatype invocation = Invoke jsval arg | LogScriptPerformance string jsval

record state =
  ignoreProps :: "string list"
  StartTimeCache :: "string \<rightharpoonup> nat"
  PrevPathCache :: "string \<rightharpoonup> string"
  LoadCache :: "string set"
  ScriptCache :: "string \<rightharpoonup> ScriptCacheProps"
  elements :: "scriptElement list"
  promises :: "loadPromise list"
  frames :: "frameTask list"
  docHead :: "nat list"
  docBody :: "nat list"
  calls :: "invocation list"

definition initState :: state where
  "initState =
     \<lparr>ignoreProps = ignoreProps_init, StartTimeCache = Map.empty, PrevPathCache = Map.empty,
      LoadCache = {}, ScriptCache = Map.empty, elements = [], promises = [], frames = [],
      docHead = [], docBody = [], calls = []\<rparr>"

text \<open>\<^verbatim>\<open>window.location.pathname\<close> and \<^verbatim>\<open>performance.now()\<close> at the time of a call.\<close>

record env =
  pathname :: string
  now :: nat

subsection \<open>The stages of \<^verbatim>\<open>loadScript\<close>\<close>

text \<open>
  \<^verbatim>\<open>const pathChanged = prevPathname ? pathname !== prevPathname : false\<close>,
  \<^verbatim>\<open>const reloadOnNavigation = pathChanged && reload\<close> and
  \<^verbatim>\<open>const hasLoaded = key && LoadCache.has(key)\<close>, all read before the path is tracked.
\<close>

definition pathChanged :: "env \<Rightarrow> string \<Rightarrow> state \<Rightarrow> bool" where
  "pathChanged e key s =
     (case PrevPathCache s key of
        Some prevPathname \<Rightarrow> prevPathname \<noteq> [] \<and> pathname e \<noteq> prevPathname
      | None \<Rightarrow> False)"

definition reloadOnNavigation :: "env \<Rightarrow> props \<Rightarrow> state \<Rightarrow> bool" where
  "reloadOnNavigation e props s =
     (pathChanged e (scriptKey props) s \<and> truthy (withDefault (getProp props ''reload'') (JBool False)))"

definition hasLoaded :: "string \<Rightarrow> state \<Rightarrow> bool" where
  "hasLoaded key s = (key \<noteq> [] \<and> key \<in> LoadCache s)"

text \<open>\<^verbatim>\<open>PrevPathCache.set(key, pathname)\<close>\<close>

definition trackPath :: "env \<Rightarrow> string \<Rightarrow> state \<Rightarrow> state" where
  "trackPath e key s = s\<lparr>PrevPathCache := (PrevPathCache s)(key \<mapsto> pathname e)\<rparr>"

text \<open>
  The reload block: when \<^verbatim>\<open>ScriptCache\<close> has the key and its entry holds an element, the
  key is deleted from \<^verbatim>\<open>LoadCache\<close>, \<^verbatim>\<open>ScriptCache\<close> and \<^verbatim>\<open>StartTimeCache\<close> and the removal
  of the element is handed to \<^verbatim>\<open>requestAnimationFrame\<close>.
\<close>

definition reloadPurge :: "jsval \<Rightarrow> string \<Rightarrow> state \<Rightarrow> state" where
  "reloadPurge target key s =
     (case ScriptCache s key of
        None \<Rightarrow> s
      | Some scriptCache \<Rightarrow>
          (case script scriptCache of
             None \<Rightarrow> s
           | Some el \<Rightarrow>
               s\<lparr>LoadCache := LoadCache s - {key},
                 ScriptCache := (ScriptCache s)(key := None),
                 StartTimeCache := (StartTimeCache s)(key := None),
                 frames := frames s @ [RemoveTask target el]\<rparr>))"

text \<open>\<^verbatim>\<open>if (!StartTimeCache.has(key)) StartTimeCache.set(key, performance.now())\<close>\<close>

definition startTimer :: "env \<Rightarrow> string \<Rightarrow> state \<Rightarrow> state" where
  "startTimer e key s =
     (if StartTimeCache s key = None
      then s\<lparr>StartTimeCache := (StartTimeCache s)(key \<mapsto> now e)\<rparr> else s)"

text \<open>
  The branch \<^verbatim>\<open>if (ScriptCache.has(key))\<close> after the timer: the key is added to
  \<^verbatim>\<open>LoadCache\<close> and the cached promise is returned, or a resolved failure when the entry
  has none.
\<close>

definition promiseNotFound :: ScriptResponse where
  "promiseNotFound = \<lparr>status = False, event = EvStr ''Script load promise not found''\<rparr>"

definition alreadyLoaded :: ScriptResponse where
  "alreadyLoaded = \<lparr>status = True, event = EvStr ''already loaded''\<rparr>"

definition inlineScript :: ScriptResponse where
  "inlineScript = \<lparr>status = True, event = EvStr ''inline script''\<rparr>"

definition inFlight :: "string \<Rightarrow> ScriptCacheProps \<Rightarrow> state \<Rightarrow> ret \<times> state" where
  "inFlight key scriptCache s =
     (let s' = s\<lparr>LoadCache := insert key (LoadCache s)\<rparr>
      in case promise scriptCache of
           Some p \<Rightarrow> (Follows p, s')
         | None \<Rightarrow> (Resolved promiseNotFound, s'))"

text \<open>
  The attributes of the new element: the spread of the descriptor, then \<^verbatim>\<open>type\<close> for the
  \<^verbatim>\<open>inWorker\<close> strategy, then \<^verbatim>\<open>data-load\<close>.
\<close>

definition elementAttributes :: "string list \<Rightarrow> props \<Rightarrow> (string \<times> jsval) list" where
  "elementAttributes ignore props =
     (let src = getProp props ''src'';
          load = withDefault (getProp props ''load'') (JStr ''afterHydration'');
          a1 = spreadProps ignore props [];
          a2 = (if load = JStr ''inWorker'' then setAttribute ''type'' (JStr ''text/partytown'') a1 else a1)
      in if truthy src then setAttribute ''data-load'' load a2
         else setAttribute ''data-load'' (JStr ''inline'') a2)"

text \<open>
  Everything from \<^verbatim>\<open>LoadCache.add(key)\<close> to the end of the function: the element is
  created, \<^verbatim>\<open>ignoreProps\<close> grows by \<^verbatim>\<open>async\<close> and \<^verbatim>\<open>defer\<close> when there is no \<^verbatim>\<open>src\<close>, the
  handlers and the promise are set up, the append is handed to
  \<^verbatim>\<open>requestAnimationFrame\<close>, and with a \<^verbatim>\<open>src\<close> the promise and the element are cached.
\<close>

definition createScript :: "props \<Rightarrow> string \<Rightarrow> state \<Rightarrow> ret \<times> state" where
  "createScript props key s =
     (let children = withDefault (getProp props ''children'') (JStr []);
          dangerouslySetInnerHTML = getProp props ''dangerouslySetInnerHTML'';
          onError = withDefault (getProp props ''onError'') JNoop;
          onLoad = getProp props ''onLoad'';
          onReady = withDefault (getProp props ''onReady'') JNull;
          src = getProp props ''src'';
          target = withDefault (getProp props ''target'') (JStr ''body'');
          ignore = (if truthy src then ignoreProps s else ignoreProps s @ [''async'', ''defer'']);
          el = length (elements s);
          p = length (promises s);
          newElement =
            \<lparr>attributes = elementAttributes ignore props,
             body = scriptContent dangerouslySetInnerHTML children,
             h_onLoad = onLoad, h_onReady = onReady, h_key = key, h_src = src, h_promise = p\<rparr>;
          newPromise = \<lparr>settled = Pending, c_key = key, c_src = src, c_onError = onError\<rparr>;
          s1 = s\<lparr>LoadCache := insert key (LoadCache s),
                 ignoreProps := ignore,
                 elements := elements s @ [newElement],
                 promises := promises s @ [newPromise],
                 frames := frames s @ [AppendTask target el]\<rparr>
      in if truthy src
         then (Follows p, s1\<lparr>ScriptCache := (ScriptCache s1)(key \<mapsto> \<lparr>promise = Some p, script = Some el\<rparr>)\<rparr>)
         else (Resolved inlineScript, s1))"

subsection \<open>\<^verbatim>\<open>loadScript\<close>\<close>

definition loadScript :: "env \<Rightarrow> props \<Rightarrow> state \<Rightarrow> ret \<times> state" where
  "loadScript e props s =
     (let key = scriptKey props;
          target = withDefault (getProp props ''target'') (JStr ''body'');
          s1 = trackPath e key s
      in if hasLoaded key s \<and> \<not> reloadOnNavigation e props s
         then (Resolved alreadyLoaded, s1)
         else
           (let s2 = (if hasLoaded key s then reloadPurge target key s1 else s1);
                s3 = startTimer e key s2
            in case ScriptCache s3 key of
                 Some scriptCache \<Rightarrow> inFlight key scriptCache s3
               | None \<Rightarrow> createScript props key s3))"

text \<open>A sequence of calls, each with the path and the clock it sees.\<close>

fun runCalls :: "state \<Rightarrow> (env \<times> props) list \<Rightarrow> state" where
  "runCalls s [] = s"
| "runCalls s ((e, props) # rest) = runCalls (snd (loadScript e props s)) rest"

subsection \<open>The browser's events and frames\<close>

text \<open>
  A call of one of the caller's functions is recorded; the functions are taken to leave
  the state of the loader alone. Whether the call returns or throws is \<open>callThrows\<close>.
\<close>

definition invoke :: "jsval \<Rightarrow> arg \<Rightarrow> state \<Rightarrow> state" where
  "invoke f a s = s\<lparr>calls := calls s @ [Invoke f a]\<rparr>"

definition logScriptPerformance :: "string \<Rightarrow> jsval \<Rightarrow> state \<Rightarrow> state" where
  "logScriptPerformance key src s = s\<lparr>calls := calls s @ [LogScriptPerformance key src]\<rparr>"

text \<open>
  \<^verbatim>\<open>resolve\<close> and \<^verbatim>\<open>reject\<close> of promise \<open>p\<close>: they act on a pending promise only. A
  rejection runs the \<^verbatim>\<open>catch\<close> handler: \<^verbatim>\<open>logScriptPerformance\<close> in development mode,
  \<^verbatim>\<open>onError(error)\<close> when \<^verbatim>\<open>onError\<close> is truthy, and \<^verbatim>\<open>Promise.reject(error)\<close>. When
  \<^verbatim>\<open>onError\<close> throws, the handler ends there and the promise is rejected with what was
  thrown.
\<close>

definition resolvePromise :: "nat \<Rightarrow> ScriptResponse \<Rightarrow> state \<Rightarrow> state" where
  "resolvePromise p r s =
     (if p < length (promises s) \<and> settled (promises s ! p) = Pending
      then s\<lparr>promises := (promises s)[p := (promises s ! p)\<lparr>settled := Fulfilled r\<rparr>]\<rparr>
      else s)"

definition rejectPromise :: "bool \<Rightarrow> nat \<Rightarrow> ScriptResponse \<Rightarrow> state \<Rightarrow> state" where
  "rejectPromise dev p r s =
     (if p < length (promises s) \<and> settled (promises s ! p) = Pending
      then (let pr = promises s ! p;
                s1 = (if dev then logScriptPerformance (c_key pr) (c_src pr) s else s);
                s2 = (if truthy (c_onError pr) then invoke (c_onError pr) (ArgResponse r) s1 else s1);
                reason = (if truthy (c_onError pr)
                          then (case callThrows (c_onError pr) of
                                  Some t \<Rightarrow> WithThrown t
                                | None \<Rightarrow> WithResponse r)
                          else WithResponse r)
            in s2\<lparr>promises := (promises s)[p := pr\<lparr>settled := Rejected reason\<rparr>]\<rparr>)
      else s)"

text \<open>
  \<^verbatim>\<open>script.onload(event)\<close> of element \<open>el\<close>, with \<open>dev\<close> the value of
  \<^verbatim>\<open>import.meta.env.DEV\<close>: \<^verbatim>\<open>onLoad\<close>, then \<^verbatim>\<open>onReady\<close>, then the log, then \<^verbatim>\<open>resolve\<close>.
  There is no \<^verbatim>\<open>try\<close> around the callbacks: when one throws, the handler ends there and
  \<^verbatim>\<open>resolve\<close> is not reached.
\<close>

definition fireLoad :: "bool \<Rightarrow> nat \<Rightarrow> nat \<Rightarrow> state \<Rightarrow> state" where
  "fireLoad dev el ev s =
     (if el < length (elements s)
      then (let x = elements s ! el;
                s1 = (if truthy (h_onLoad x) then invoke (h_onLoad x) (ArgEvent (EvBrowser ev)) s else s)
            in if truthy (h_onLoad x) \<and> callThrows (h_onLoad x) \<noteq> None then s1
               else
                 (let s2 = (if truthy (h_onReady x)
                            then invoke (h_onReady x) (ArgEvent (EvBrowser ev)) s1 else s1)
                  in if truthy (h_onReady x) \<and> callThrows (h_onReady x) \<noteq> None then s2
                     else
                       (let s3 = (if dev then logScriptPerformance (h_key x) (h_src x) s2 else s2)
                        in resolvePromise (h_promise x) \<lparr>status = True, event = EvBrowser ev\<rparr> s3)))
      else s)"

text \<open>\<^verbatim>\<open>script.onerror(event)\<close> of element \<open>el\<close>.\<close>

definition fireError :: "bool \<Rightarrow> nat \<Rightarrow> nat \<Rightarrow> state \<Rightarrow> state" where
  "fireError dev el ev s =
     (if el < length (elements s)
      then rejectPromise dev (h_promise (elements s ! el)) \<lparr>status = False, event = EvBrowser ev\<rparr> s
      else s)"

text \<open>
  One animation frame runs the queued callbacks in order. \<^verbatim>\<open>appendChild\<close> moves the node
  to the end of the target's children; \<^verbatim>\<open>removeChild\<close> of a node that is not a child of
  the target throws, which leaves the document as it is.
\<close>

definition appendChild :: "jsval \<Rightarrow> nat \<Rightarrow> state \<Rightarrow> state" where
  "appendChild target el s =
     (if target = JStr ''head''
      then s\<lparr>docHead := removeAll el (docHead s) @ [el], docBody := removeAll el (docBody s)\<rparr>
      else if target = JStr ''body''
      then s\<lparr>docBody := removeAll el (docBody s) @ [el], docHead := removeAll el (docHead s)\<rparr>
      else s)"

definition removeChild :: "jsval \<Rightarrow> nat \<Rightarrow> state \<Rightarrow> state" where
  "removeChild target el s =
     (if target = JStr ''head'' then s\<lparr>docHead := removeAll el (docHead s)\<rparr>
      else if target = JStr ''body'' then s\<lparr>docBody := removeAll el (docBody s)\<rparr>
      else s)"

fun runTask :: "frameTask \<Rightarrow> state \<Rightarrow> state" where
  "runTask (AppendTask target el) s = appendChild target el s"
| "runTask (RemoveTask target el) s = removeChild target el s"

definition runFrame :: "state \<Rightarrow> state" where
  "runFrame s = (fold runTask (frames s) s)\<lparr>frames := []\<rparr>"

subsection \<open>Derived notions used in the statements\<close>

text \<open>
  The state in which \<^verbatim>\<open>loadScript\<close> reaches its second \<^verbatim>\<open>ScriptCache.has(key)\<close> check:
  the path is tracked, a triggered reload has purged, the timer is started.
\<close>

definition prepared :: "env \<Rightarrow> props \<Rightarrow> state \<Rightarrow> state" where
  "prepared e props s =
     (let key = scriptKey props;
          target = withDefault (getProp props ''target'') (JStr ''body'');
          s1 = trackPath e key s
      in startTimer e key (if hasLoaded key s then reloadPurge target key s1 else s1))"

text \<open>The element a call builds once it gets to \<^verbatim>\<open>document.createElement\<close>.\<close>

definition newElement :: "props \<Rightarrow> state \<Rightarrow> scriptElement" where
  "newElement props s =
     \<lparr>attributes = elementAttributes
        (if truthy (getProp props ''src'') then ignoreProps s else ignoreProps s @ [''async'', ''defer'']) props,
      body = scriptContent (getProp props ''dangerouslySetInnerHTML'')
        (withDefault (getProp props ''children'') (JStr [])),
      h_onLoad = getProp props ''onLoad'',
      h_onReady = withDefault (getProp props ''onReady'') JNull,
      h_key = scriptKey props,
      h_src = getProp props ''src'',
      h_promise = length (promises s)\<rparr>"

subsection \<open>Example inputs\<close>

text \<open>Two pages of the shop, and the descriptors used in the examples below.\<close>

definition envProducts :: env where
  "envProducts = \<lparr>pathname = ''/products'', now = 10\<rparr>"

definition envCart :: env where
  "envCart = \<lparr>pathname = ''/cart'', now = 20\<rparr>"

definition inlineProps :: props where
  "inlineProps =
     [(''id'', JStr ''analytics''), (''async'', JBool True), (''defer'', JBool True),
      (''children'', JStr ''window.dataLayer = []'')]"

definition workerProps :: props where
  "workerProps =
     [(''id'', JStr ''worker''), (''src'', JStr ''/w.js''), (''type'', JStr ''module''),
      (''load'', JStr ''inWorker'')]"

definition cdnProps :: props where
  "cdnProps =
     [(''src'', JStr ''/scripts/cdn?script=use-load-script.js''), (''id'', JStr ''use-load-script''),
      (''target'', JStr ''head''), (''load'', JStr ''afterHydration''), (''reload'', JBool False),
      (''onLoad'', JFun 11), (''onReady'', JFun 12), (''onError'', JFun 13)]"

definition plainProps :: props where
  "plainProps = [(''id'', JStr ''a''), (''src'', JStr ''/x.js'')]"

definition noIdProps :: props where
  "noIdProps = [(''id'', JStr []), (''children'', JStr ''console.log(1)'')]"

definition reloadProps :: props where
  "reloadProps = [(''id'', JStr ''a''), (''src'', JStr ''/x.js''), (''reload'', JBool True)]"

definition asyncProps :: props where
  "asyncProps = [(''id'', JStr ''c''), (''src'', JStr ''/c.js''), (''async'', JBool True)]"

definition collidingProps :: props where
  "collidingProps = [(''id'', JStr ''a/x.js''), (''async'', JBool True)]"


text \<open>
  A state in which \<^verbatim>\<open>ScriptCache\<close> holds an entry without promise and without element
  for a key that \<^verbatim>\<open>LoadCache\<close> has; both caches are exported by the module.
\<close>

definition strayState :: state where
  "strayState =
     initState\<lparr>LoadCache := {''a/x.js''},
       ScriptCache := [''a/x.js'' \<mapsto> \<lparr>promise = None, script = None\<rparr>]\<rparr>"

text \<open>The state after a first load of \<open>reloadProps\<close> and one animation frame.\<close>

definition attachedState :: state where
  "attachedState = runFrame (snd (loadScript envProducts reloadProps initState))"

text \<open>A descriptor without its \<^verbatim>\<open>async\<close> and \<^verbatim>\<open>defer\<close> fields.\<close>

definition dropAsyncDefer :: "props \<Rightarrow> props" where
  "dropAsyncDefer props = filter (\<lambda>(k, v). k \<noteq> ''async'' \<and> k \<noteq> ''defer'') props"

subsection \<open>The invariant of the caches\<close>

fun taskElement :: "frameTask \<Rightarrow> nat" where
  "taskElement (AppendTask target x) = x"
| "taskElement (RemoveTask target x) = x"

text \<open>
  What every run of \<^verbatim>\<open>loadScript\<close> calls keeps: a key in \<^verbatim>\<open>ScriptCache\<close> is in \<^verbatim>\<open>LoadCache\<close>
  and its entry holds an element that was created for this key; the queued callbacks
  are about created elements.
\<close>

definition tracked :: "state \<Rightarrow> bool" where
  "tracked s =
     ((\<forall>k c. ScriptCache s k = Some c \<longrightarrow>
         k \<in> LoadCache s \<and>
         (\<exists>el. script c = Some el \<and> el < length (elements s) \<and> h_key (elements s ! el) = k)) \<and>
      (\<forall>t \<in> set (frames s). taskElement t < length (elements s)))"

subsection \<open>Further example inputs\<close>

text \<open>An inline script whose descriptor spells \<^verbatim>\<open>async\<close> with a capital letter.\<close>

definition capsProps :: props where
  "capsProps = [(''id'', JStr ''banner''), (''Async'', JBool True), (''children'', JStr ''show()'')]"

text \<open>
  The state after a first load of \<open>plainProps\<close> in which the entry of \<^verbatim>\<open>ScriptCache\<close> has
  lost its element; the cache is exported by the module.
\<close>

definition orphanState :: state where
  "orphanState =
     (snd (loadScript envProducts plainProps initState))
       \<lparr>ScriptCache := [''a/x.js'' \<mapsto> \<lparr>promise = Some 0, script = None\<rparr>]\<rparr>"

text \<open>A descriptor whose \<^verbatim>\<open>onLoad\<close> and \<^verbatim>\<open>onError\<close> callbacks throw.\<close>

definition throwingProps :: props where
  "throwingProps =
     [(''id'', JStr ''pixel''), (''src'', JStr ''/pixel.js''), (''onLoad'', JThrows 21),
      (''onReady'', JFun 12), (''onError'', JThrows 23)]"

text \<open>A callback that is not given, or that returns when it is called.\<close>

definition returnsNormally :: "jsval \<Rightarrow> bool" where
  "returnsNormally f = (truthy f \<longrightarrow> callThrows f = None)"

subsection \<open>Calls and animation-frame callbacks in any order\<close>

text \<open>
  What happens to the loader over time: a call of \<^verbatim>\<open>loadScript\<close>, or the browser running
  the oldest callback that was handed to \<^verbatim>\<open>requestAnimationFrame\<close>.
\<close>

datatype step = Call env props | NextCallback

definition nextCallback :: "state \<Rightarrow> state" where
  "nextCallback s = (case frames s of [] \<Rightarrow> s | t # rest \<Rightarrow> (runTask t s)\<lparr>frames := rest\<rparr>)"

fun runSteps :: "state \<Rightarrow> step list \<Rightarrow> state" where
  "runSteps s [] = s"
| "runSteps s (Call e props # rest) = runSteps (snd (loadScript e props s)) rest"
| "runSteps s (NextCallback # rest) = runSteps (nextCallback s) rest"

text \<open>
  The elements created for the key \<open>k\<close> that are children of \<^verbatim>\<open>document.head\<close> or
  \<^verbatim>\<open>document.body\<close>.
\<close>

definition attachedFor :: "state \<Rightarrow> string \<Rightarrow> nat list" where
  "attachedFor s k = filter (\<lambda>el. h_key (elements s ! el) = k) (docHead s @ docBody s)"

text \<open>The children of \<^verbatim>\<open>document.head\<close> and of \<^verbatim>\<open>document.body\<close>, and a callback's effect on them.\<close>

type_synonym docs = "nat list \<times> nat list"

definition docsOf :: "state \<Rightarrow> docs" where
  "docsOf s = (docHead s, docBody s)"

fun taskDocs :: "frameTask \<Rightarrow> docs \<Rightarrow> docs" where
  "taskDocs (AppendTask target el) (h, b) =
     (if target = JStr ''head'' then (removeAll el h @ [el], removeAll el b)
      else if target = JStr ''body'' then (removeAll el h, removeAll el b @ [el])
      else (h, b))"
| "taskDocs (RemoveTask target el) (h, b) =
     (if target = JStr ''head'' then (removeAll el h, b)
      else if target = JStr ''body'' then (h, removeAll el b)
      else (h, b))"

definition attachedSet :: "docs \<Rightarrow> nat set" where
  "attachedSet d = set (fst d) \<union> set (snd d)"

text \<open>\<open>allAlong P q d\<close>: \<open>P\<close> holds of the document now and after each callback of the queue \<open>q\<close>.\<close>

fun allAlong :: "(docs \<Rightarrow> bool) \<Rightarrow> frameTask list \<Rightarrow> docs \<Rightarrow> bool" where
  "allAlong P [] d = P d"
| "allAlong P (t # q) d = (P d \<and> allAlong P q (taskDocs t d))"

definition keyElements :: "state \<Rightarrow> string \<Rightarrow> nat set" where
  "keyElements s k = {el. el < length (elements s) \<and> h_key (elements s ! el) = k}"

text \<open>
  Of the elements \<open>K\<close>, at most one is attached, and none is attached anywhere but to
  the target \<open>T\<close>.
\<close>

definition keyDocs :: "jsval \<Rightarrow> nat set \<Rightarrow> docs \<Rightarrow> bool" where
  "keyDocs T K d =
     ((\<forall>x \<in> attachedSet d. \<forall>y \<in> attachedSet d. x \<in> K \<longrightarrow> y \<in> K \<longrightarrow> x = y) \<and>
      (T \<noteq> JStr ''head'' \<longrightarrow> (\<forall>x \<in> set (fst d). x \<notin> K)) \<and>
      (T \<noteq> JStr ''body'' \<longrightarrow> (\<forall>x \<in> set (snd d). x \<notin> K)))"

text \<open>The document holds each created element at most once.\<close>

definition wellFormed :: "state \<Rightarrow> bool" where
  "wellFormed s =
     (tracked s \<and> distinct (docHead s @ docBody s) \<and>
      (\<forall>el \<in> set (docHead s @ docBody s). el < length (elements s)))"

text \<open>
  For a key whose calls all carry a source URL and name the target \<open>T\<close>: at most one of
  its elements is attached now and after each queued callback; once the queue has run,
  a key without an entry in \<^verbatim>\<open>ScriptCache\<close> has no element attached, and a key with an
  entry has at most the entry's element attached.
\<close>

definition srcInv :: "state \<Rightarrow> string \<Rightarrow> jsval \<Rightarrow> bool" where
  "srcInv s k T =
     (allAlong (keyDocs T (keyElements s k)) (frames s) (docsOf s) \<and>
      (ScriptCache s k = None \<longrightarrow>
         k \<notin> LoadCache s \<and>
         attachedSet (fold taskDocs (frames s) (docsOf s)) \<inter> keyElements s k = {}) \<and>
      (\<forall>c el. ScriptCache s k = Some c \<longrightarrow> script c = Some el \<longrightarrow>
         attachedSet (fold taskDocs (frames s) (docsOf s)) \<inter> keyElements s k \<subseteq> {el}))"

text \<open>For a key whose calls never ask for a reload: one element at most was created for it.\<close>

definition onceInv :: "state \<Rightarrow> string \<Rightarrow> bool" where
  "onceInv s k =
     ((k \<notin> LoadCache s \<longrightarrow> keyElements s k = {}) \<and>
      (\<forall>x \<in> keyElements s k. \<forall>y \<in> keyElements s k. x = y))"

text \<open>An inline script that asks to be reloaded on navigation.\<close>

definition tickerProps :: props where
  "tickerProps = [(''id'', JStr ''ticker''), (''reload'', JBool True), (''children'', JStr ''tick()'')]"

text \<open>A script that is first put into the head and, after a navigation, into the body.\<close>

definition headProps :: props where
  "headProps =
     [(''id'', JStr ''a''), (''src'', JStr ''/x.js''), (''target'', JStr ''head''), (''reload'', JBool True)]"

section \<open>Basic facts\<close>

subsection \<open>Attribute names and the spread of the descriptor\<close>

lemma lowerChar_idem: "lowerChar (lowerChar c) = lowerChar c"
  by (simp add: lowerChar_def upperLower_def)

lemma toLowerCase_idem: "toLowerCase (toLowerCase s) = toLowerCase s"
  by (simp add: toLowerCase_def lowerChar_idem)

lemma lower_attrName:
  "toLowerCase (attrName k) =
     (if k = ''acceptCharset'' then ''accept-charset''
      else if k = ''className'' then ''class''
      else if k = ''htmlFor'' then ''for''
      else if k = ''httpEquiv'' then ''http-equiv''
      else toLowerCase k)"
  by (simp add: attrName_def DOMAttributeNames_def toLowerCase_idem)
     (simp add: toLowerCase_def lowerChar_def upperLower_def)

text \<open>
  The alias table hands \<^verbatim>\<open>noModule\<close> over as it is; \<^verbatim>\<open>setAttribute\<close> then stores it in
  lower case.
\<close>

lemma attrName_noModule:
  "attrName ''noModule'' = ''noModule'' \<and>
   setAttribute (attrName ''noModule'') v [] = [(''nomodule'', v)]"
  by (simp add: attrName_def DOMAttributeNames_def setAttribute_def toLowerCase_def lowerChar_def
      upperLower_def)

lemma getAttribute_setAttribute:
  "getAttribute (setAttribute n v a) m =
     (if toLowerCase n = toLowerCase m then Some v else getAttribute a m)"
  by (simp add: getAttribute_def setAttribute_def update_conv')

lemma getAttribute_Nil: "getAttribute [] n = None"
  by (simp add: getAttribute_def)

lemma spreadProps_absent:
  "getAttribute attrs n = None \<Longrightarrow>
   \<forall>(k, v) \<in> set ps. v \<noteq> JUndefined \<and> k \<notin> set ign \<longrightarrow> toLowerCase (attrName k) \<noteq> toLowerCase n \<Longrightarrow>
   getAttribute (spreadProps ign ps attrs) n = None"
  by (induction ign ps attrs rule: spreadProps.induct) (auto simp: getAttribute_setAttribute)





lemma lower_literals [simp]:
  "toLowerCase ''async'' = ''async''"
  "toLowerCase ''defer'' = ''defer''"
  "toLowerCase ''type'' = ''type''"
  "toLowerCase ''data-load'' = ''data-load''"
  by (simp_all add: toLowerCase_def lowerChar_def upperLower_def)

lemma lower_attrName_async:
  "toLowerCase (attrName k) = ''async'' \<Longrightarrow> toLowerCase k = ''async''"
  "toLowerCase (attrName k) = ''defer'' \<Longrightarrow> toLowerCase k = ''defer''"
  by (auto simp: lower_attrName split: if_splits)

subsection \<open>The paths through \<^verbatim>\<open>loadScript\<close>\<close>

lemma loadScript_unfold:
  "loadScript e props s =
     (if hasLoaded (scriptKey props) s \<and> \<not> reloadOnNavigation e props s
      then (Resolved alreadyLoaded, trackPath e (scriptKey props) s)
      else case ScriptCache (prepared e props s) (scriptKey props) of
             Some scriptCache \<Rightarrow> inFlight (scriptKey props) scriptCache (prepared e props s)
           | None \<Rightarrow> createScript props (scriptKey props) (prepared e props s))"
  by (simp add: loadScript_def prepared_def Let_def split: option.splits)

lemma prepared_fields [simp]:
  "elements (prepared e props s) = elements s"
  "promises (prepared e props s) = promises s"
  "ignoreProps (prepared e props s) = ignoreProps s"
  "docHead (prepared e props s) = docHead s"
  "docBody (prepared e props s) = docBody s"
  "calls (prepared e props s) = calls s"
  by (simp_all add: prepared_def Let_def startTimer_def reloadPurge_def trackPath_def
      split: option.splits)

lemma trackPath_fields [simp]:
  "elements (trackPath e k s) = elements s"
  "promises (trackPath e k s) = promises s"
  "ignoreProps (trackPath e k s) = ignoreProps s"
  "frames (trackPath e k s) = frames s"
  "LoadCache (trackPath e k s) = LoadCache s"
  "ScriptCache (trackPath e k s) = ScriptCache s"
  "StartTimeCache (trackPath e k s) = StartTimeCache s"
  "docHead (trackPath e k s) = docHead s"
  "docBody (trackPath e k s) = docBody s"
  "calls (trackPath e k s) = calls s"
  "PrevPathCache (trackPath e k s) = (PrevPathCache s)(k \<mapsto> pathname e)"
  by (simp_all add: trackPath_def)

lemma inFlight_fields [simp]:
  "elements (snd (inFlight k c s)) = elements s"
  "promises (snd (inFlight k c s)) = promises s"
  "ignoreProps (snd (inFlight k c s)) = ignoreProps s"
  "frames (snd (inFlight k c s)) = frames s"
  "LoadCache (snd (inFlight k c s)) = insert k (LoadCache s)"
  "ScriptCache (snd (inFlight k c s)) = ScriptCache s"
  "docHead (snd (inFlight k c s)) = docHead s"
  "docBody (snd (inFlight k c s)) = docBody s"
  by (simp_all add: inFlight_def Let_def split: option.splits)

lemma createScript_fields [simp]:
  "elements (snd (createScript props k s)) = elements s @ [(newElement props s)\<lparr>h_key := k\<rparr>]"
  "promises (snd (createScript props k s)) = promises s @
      [\<lparr>settled = Pending, c_key = k, c_src = getProp props ''src'',
        c_onError = withDefault (getProp props ''onError'') JNoop\<rparr>]"
  "ignoreProps (snd (createScript props k s)) =
      (if truthy (getProp props ''src'') then ignoreProps s else ignoreProps s @ [''async'', ''defer''])"
  "frames (snd (createScript props k s)) =
      frames s @ [AppendTask (withDefault (getProp props ''target'') (JStr ''body'')) (length (elements s))]"
  "LoadCache (snd (createScript props k s)) = insert k (LoadCache s)"
  "ScriptCache (snd (createScript props k s)) =
      (if truthy (getProp props ''src'')
       then (ScriptCache s)(k \<mapsto> \<lparr>promise = Some (length (promises s)), script = Some (length (elements s))\<rparr>)
       else ScriptCache s)"
  "docHead (snd (createScript props k s)) = docHead s"
  "docBody (snd (createScript props k s)) = docBody s"
  "calls (snd (createScript props k s)) = calls s"
  "StartTimeCache (snd (createScript props k s)) = StartTimeCache s"
  "PrevPathCache (snd (createScript props k s)) = PrevPathCache s"
  "fst (createScript props k s) =
      (if truthy (getProp props ''src'') then Follows (length (promises s)) else Resolved inlineScript)"
  by (simp_all add: createScript_def Let_def newElement_def)

text \<open>A call that changes the list of elements went through createScript.\<close>
lemma loadScript_created:
  assumes "length (elements (snd (loadScript e props s))) \<noteq> length (elements s)"
  shows "loadScript e props s = createScript props (scriptKey props) (prepared e props s)"
    and "ScriptCache (prepared e props s) (scriptKey props) = None"
    and "\<not> (hasLoaded (scriptKey props) s \<and> \<not> reloadOnNavigation e props s)"
  using assms by (auto simp: loadScript_unfold split: if_splits option.splits)

lemma loadScript_elements:
  "elements (snd (loadScript e props s)) = elements s \<or>
   elements (snd (loadScript e props s)) = elements s @ [newElement props s]"
  by (auto simp: loadScript_unfold newElement_def split: option.splits)

lemma created_last:
  assumes "length (elements (snd (loadScript e props s))) = Suc (length (elements s))"
  shows "last (elements (snd (loadScript e props s))) = newElement props s"
    and "elements (snd (loadScript e props s)) = elements s @ [newElement props s]"
  using assms loadScript_elements [of e props s] by auto

lemmas loadScript_eval =
  loadScript_def createScript_def inFlight_def reloadPurge_def startTimer_def trackPath_def
  hasLoaded_def reloadOnNavigation_def pathChanged_def scriptKey_def getProp_def withDefault_def
  elementAttributes_def setAttribute_def getAttribute_def attrName_def DOMAttributeNames_def
  toLowerCase_def lowerChar_def upperLower_def scriptContent_def initState_def ignoreProps_init_def
  inlineScript_def alreadyLoaded_def promiseNotFound_def Let_def envProducts_def envCart_def

lemma startTimer_fields [simp]:
  "elements (startTimer e k s) = elements s"
  "promises (startTimer e k s) = promises s"
  "ignoreProps (startTimer e k s) = ignoreProps s"
  "frames (startTimer e k s) = frames s"
  "LoadCache (startTimer e k s) = LoadCache s"
  "ScriptCache (startTimer e k s) = ScriptCache s"
  "PrevPathCache (startTimer e k s) = PrevPathCache s"
  "docHead (startTimer e k s) = docHead s"
  "docBody (startTimer e k s) = docBody s"
  "calls (startTimer e k s) = calls s"
  by (simp_all add: startTimer_def)

lemma fresh_first_call:
  assumes "scriptKey props \<notin> LoadCache s" and "ScriptCache s (scriptKey props) = None"
  shows "loadScript e props s =
           createScript props (scriptKey props) (startTimer e (scriptKey props) (trackPath e (scriptKey props) s))"
  using assms by (simp add: loadScript_def Let_def hasLoaded_def startTimer_def)

lemma second_call:
  assumes key: "scriptKey props \<noteq> []"
      and fresh: "scriptKey props \<notin> LoadCache s" "ScriptCache s (scriptKey props) = None"
      and same: "\<not> truthy (withDefault (getProp props ''reload'') (JBool False)) \<or> pathname e2 = pathname e1"
  shows "loadScript e2 props (snd (loadScript e1 props s)) =
           (Resolved alreadyLoaded, trackPath e2 (scriptKey props) (snd (loadScript e1 props s)))"
proof -
  let ?s1 = "snd (loadScript e1 props s)"
  have l: "hasLoaded (scriptKey props) ?s1"
    using key by (simp add: fresh_first_call [OF fresh] hasLoaded_def)
  have "PrevPathCache ?s1 (scriptKey props) = Some (pathname e1)"
    by (simp add: fresh_first_call [OF fresh])
  with same have r: "\<not> reloadOnNavigation e2 props ?s1"
    by (auto simp: reloadOnNavigation_def pathChanged_def)
  from l r show ?thesis by (simp add: loadScript_unfold)
qed

lemma loadScript_ignoreProps:
  "ignoreProps (snd (loadScript e props s)) = ignoreProps s \<or>
   (\<not> truthy (getProp props ''src'') \<and>
    length (elements (snd (loadScript e props s))) = Suc (length (elements s)) \<and>
    ignoreProps (snd (loadScript e props s)) = ignoreProps s @ [''async'', ''defer''])"
  by (auto simp: loadScript_unfold split: option.splits)


subsection \<open>Promises and frames\<close>

lemma resolvePromise_settled:
  "p < length (promises s) \<Longrightarrow> settled (promises s ! p) \<noteq> Pending \<Longrightarrow> resolvePromise p r s = s"
  by (simp add: resolvePromise_def)

lemma rejectPromise_settled:
  "p < length (promises s) \<Longrightarrow> settled (promises s ! p) \<noteq> Pending \<Longrightarrow> rejectPromise dev p r s = s"
  by (simp add: rejectPromise_def)

lemma runFrame_removed:
  assumes "frames s = pending @ [RemoveTask target old, AppendTask target new]" and "new \<noteq> old"
  shows "(target = JStr ''body'' \<longrightarrow> old \<notin> set (docBody (runFrame s))) \<and>
         (target = JStr ''head'' \<longrightarrow> old \<notin> set (docHead (runFrame s)))"
  using assms by (simp add: runFrame_def appendChild_def removeChild_def)

lemma attachedState_eval:
  "docBody attachedState = [0]" "docHead attachedState = []" "frames attachedState = []"
  "length (elements attachedState) = 1"
  "ScriptCache attachedState (scriptKey reloadProps) = Some \<lparr>promise = Some 0, script = Some 0\<rparr>"
  "hasLoaded (scriptKey reloadProps) attachedState"
  "reloadOnNavigation envCart reloadProps attachedState"
  by (simp_all add: attachedState_def runFrame_def appendChild_def loadScript_eval reloadProps_def)

subsection \<open>Descriptors without \<^verbatim>\<open>async\<close> and \<^verbatim>\<open>defer\<close>\<close>

lemma map_of_dropAsyncDefer:
  "k \<noteq> ''async'' \<Longrightarrow> k \<noteq> ''defer'' \<Longrightarrow> map_of (dropAsyncDefer props) k = map_of props k"
  by (induction props) (auto simp: dropAsyncDefer_def)

lemma getProp_dropAsyncDefer:
  "k \<noteq> ''async'' \<Longrightarrow> k \<noteq> ''defer'' \<Longrightarrow> getProp (dropAsyncDefer props) k = getProp props k"
  by (simp add: getProp_def map_of_dropAsyncDefer)

lemma scriptKey_dropAsyncDefer: "scriptKey (dropAsyncDefer props) = scriptKey props"
  by (simp add: scriptKey_def getProp_dropAsyncDefer)

lemma spreadProps_dropAsyncDefer:
  "''async'' \<in> set ign \<Longrightarrow> ''defer'' \<in> set ign \<Longrightarrow>
   spreadProps ign (dropAsyncDefer props) attrs = spreadProps ign props attrs"
  by (induction ign props attrs rule: spreadProps.induct) (auto simp: dropAsyncDefer_def)

lemma elementAttributes_dropAsyncDefer:
  "''async'' \<in> set ign \<Longrightarrow> ''defer'' \<in> set ign \<Longrightarrow>
   elementAttributes ign (dropAsyncDefer props) = elementAttributes ign props"
  by (simp add: elementAttributes_def spreadProps_dropAsyncDefer getProp_dropAsyncDefer)

lemma createScript_dropAsyncDefer:
  assumes "''async'' \<in> set (ignoreProps s)" and "''defer'' \<in> set (ignoreProps s)"
  shows "createScript (dropAsyncDefer props) k s = createScript props k s"
  using assms by (simp add: createScript_def getProp_dropAsyncDefer elementAttributes_dropAsyncDefer)

lemma loadScript_dropAsyncDefer:
  assumes "''async'' \<in> set (ignoreProps s)" and "''defer'' \<in> set (ignoreProps s)"
  shows "loadScript e (dropAsyncDefer props) s = loadScript e props s"
proof -
  have r: "reloadOnNavigation e (dropAsyncDefer props) s = reloadOnNavigation e props s"
    by (simp add: reloadOnNavigation_def scriptKey_dropAsyncDefer getProp_dropAsyncDefer)
  have p: "prepared e (dropAsyncDefer props) s = prepared e props s"
    by (simp add: prepared_def scriptKey_dropAsyncDefer getProp_dropAsyncDefer)
  show ?thesis
    using assms
    by (simp add: loadScript_unfold r p scriptKey_dropAsyncDefer createScript_dropAsyncDefer
        split: option.splits)
qed

lemma loadScript_ignoreProps_mono:
  "set (ignoreProps s) \<subseteq> set (ignoreProps (snd (loadScript e props s)))"
  using loadScript_ignoreProps [of e props s] by auto

lemma runCalls_ignoreProps_mono:
  "set (ignoreProps s) \<subseteq> set (ignoreProps (runCalls s cs))"
proof (induction cs arbitrary: s)
  case Nil
  then show ?case by simp
next
  case (Cons c cs)
  obtain e props where c: "c = (e, props)" by (cases c)
  have "set (ignoreProps s) \<subseteq> set (ignoreProps (snd (loadScript e props s)))"
    by (rule loadScript_ignoreProps_mono)
  also have "\<dots> \<subseteq> set (ignoreProps (runCalls (snd (loadScript e props s)) cs))"
    by (rule Cons.IH)
  finally show ?case by (simp add: c)
qed

lemma elementAttributes_no_async:
  assumes "''async'' \<in> set ign" and "''defer'' \<in> set ign"
      and "\<forall>k \<in> fst ` set props. toLowerCase k \<in> {''async'', ''defer''} \<longrightarrow> k \<in> {''async'', ''defer''}"
  shows "getAttribute (elementAttributes ign props) ''async'' = None"
    and "getAttribute (elementAttributes ign props) ''defer'' = None"
proof -
  have a: "getAttribute (spreadProps ign props []) ''async'' = None"
    using assms by (intro spreadProps_absent) (auto simp: getAttribute_Nil dest!: lower_attrName_async)
  have d: "getAttribute (spreadProps ign props []) ''defer'' = None"
    using assms by (intro spreadProps_absent) (auto simp: getAttribute_Nil dest!: lower_attrName_async)
  show "getAttribute (elementAttributes ign props) ''async'' = None"
    and "getAttribute (elementAttributes ign props) ''defer'' = None"
    using a d by (simp_all add: elementAttributes_def Let_def getAttribute_setAttribute)
qed

subsection \<open>The invariant of the caches\<close>

lemma tracked_initState: "tracked initState"
  by (simp add: tracked_def initState_def)

lemma tracked_trackPath: "tracked (trackPath e k s) = tracked s"
  by (simp add: tracked_def)

lemma prepared_cases:
  obtains (kept) "frames (prepared e props s) = frames s"
      "LoadCache (prepared e props s) = LoadCache s"
      "ScriptCache (prepared e props s) = ScriptCache s"
    | (purged) c old where "hasLoaded (scriptKey props) s"
      "ScriptCache s (scriptKey props) = Some c" "script c = Some old"
      "frames (prepared e props s)
         = frames s @ [RemoveTask (withDefault (getProp props ''target'') (JStr ''body'')) old]"
      "LoadCache (prepared e props s) = LoadCache s - {scriptKey props}"
      "ScriptCache (prepared e props s) = (ScriptCache s)(scriptKey props := None)"
proof (cases "hasLoaded (scriptKey props) s")
  case False
  then have "frames (prepared e props s) = frames s"
      "LoadCache (prepared e props s) = LoadCache s"
      "ScriptCache (prepared e props s) = ScriptCache s"
    by (simp_all add: prepared_def Let_def)
  then show ?thesis by (rule kept)
next
  case True
  show ?thesis
  proof (cases "ScriptCache s (scriptKey props)")
    case None
    with True have "frames (prepared e props s) = frames s"
      "LoadCache (prepared e props s) = LoadCache s"
      "ScriptCache (prepared e props s) = ScriptCache s"
      by (simp_all add: prepared_def Let_def reloadPurge_def)
    then show ?thesis by (rule kept)
  next
    case (Some c)
    show ?thesis
    proof (cases "script c")
      case None
      with True Some have "frames (prepared e props s) = frames s"
        "LoadCache (prepared e props s) = LoadCache s"
        "ScriptCache (prepared e props s) = ScriptCache s"
        by (simp_all add: prepared_def Let_def reloadPurge_def)
      then show ?thesis by (rule kept)
    next
      case (Some old)
      with True \<open>ScriptCache s (scriptKey props) = Some c\<close>
      have "frames (prepared e props s)
         = frames s @ [RemoveTask (withDefault (getProp props ''target'') (JStr ''body'')) old]"
        "LoadCache (prepared e props s) = LoadCache s - {scriptKey props}"
        "ScriptCache (prepared e props s) = (ScriptCache s)(scriptKey props := None)"
        by (simp_all add: prepared_def Let_def reloadPurge_def)
      with True \<open>ScriptCache s (scriptKey props) = Some c\<close> Some show ?thesis
        by (rule purged)
    qed
  qed
qed

lemma tracked_prepared:
  assumes "tracked s"
  shows "tracked (prepared e props s)"
proof (cases rule: prepared_cases [of e props s])
  case kept
  with assms show ?thesis by (simp add: tracked_def)
next
  case (purged c old)
  from assms purged(2,3) have "old < length (elements s)"
    unfolding tracked_def by fastforce
  with assms purged(4,5,6) show ?thesis
    unfolding tracked_def by (simp split: if_splits)
qed

lemma tracked_inFlight: "tracked s \<Longrightarrow> tracked (snd (inFlight k c s))"
  unfolding tracked_def by simp

lemma tracked_createScript:
  assumes "tracked s"
  shows "tracked (snd (createScript props k s))"
proof -
  let ?s' = "snd (createScript props k s)"
  have frames: "\<forall>t \<in> set (frames ?s'). taskElement t < length (elements ?s')"
    using assms unfolding tracked_def by (auto simp: less_Suc_eq)
  have cache: "k' \<in> LoadCache ?s' \<and>
      (\<exists>el. script c = Some el \<and> el < length (elements ?s') \<and> h_key (elements ?s' ! el) = k')"
    if c: "ScriptCache ?s' k' = Some c" for k' c
  proof (cases "ScriptCache s k' = Some c")
    case True
    with assms obtain el where "k' \<in> LoadCache s" "script c = Some el" "el < length (elements s)"
      "h_key (elements s ! el) = k'"
      unfolding tracked_def by blast
    then show ?thesis by (auto simp: nth_append)
  next
    case False
    with c have "k' = k" "c = \<lparr>promise = Some (length (promises s)), script = Some (length (elements s))\<rparr>"
      by (auto split: if_splits)
    then show ?thesis by simp
  qed
  from frames cache show ?thesis
    unfolding tracked_def by blast
qed

lemma loadScript_already:
  "hasLoaded (scriptKey props) s \<Longrightarrow> \<not> reloadOnNavigation e props s \<Longrightarrow>
   loadScript e props s = (Resolved alreadyLoaded, trackPath e (scriptKey props) s)"
  by (simp add: loadScript_unfold)

lemma loadScript_inFlight:
  "\<not> (hasLoaded (scriptKey props) s \<and> \<not> reloadOnNavigation e props s) \<Longrightarrow>
   ScriptCache (prepared e props s) (scriptKey props) = Some c \<Longrightarrow>
   loadScript e props s = inFlight (scriptKey props) c (prepared e props s)"
  unfolding loadScript_unfold by (simp only: if_False option.case)

lemma loadScript_create:
  "\<not> (hasLoaded (scriptKey props) s \<and> \<not> reloadOnNavigation e props s) \<Longrightarrow>
   ScriptCache (prepared e props s) (scriptKey props) = None \<Longrightarrow>
   loadScript e props s = createScript props (scriptKey props) (prepared e props s)"
  unfolding loadScript_unfold by (simp only: if_False option.case)

lemma tracked_loadScript:
  assumes "tracked s"
  shows "tracked (snd (loadScript e props s))"
proof -
  have p: "tracked (prepared e props s)"
    using assms by (rule tracked_prepared)
  show ?thesis
  proof (cases "hasLoaded (scriptKey props) s \<and> \<not> reloadOnNavigation e props s")
    case True
    with assms show ?thesis by (simp add: loadScript_already tracked_trackPath)
  next
    case False
    show ?thesis
    proof (cases "ScriptCache (prepared e props s) (scriptKey props)")
      case None
      from p show ?thesis
        unfolding loadScript_create [OF False None] by (rule tracked_createScript)
    next
      case (Some c)
      from p show ?thesis
        unfolding loadScript_inFlight [OF False Some] by (rule tracked_inFlight)
    qed
  qed
qed

lemma tracked_runCalls: "tracked s \<Longrightarrow> tracked (runCalls s cs)"
proof (induction cs arbitrary: s)
  case Nil
  then show ?case by simp
next
  case (Cons c cs)
  obtain e props where "c = (e, props)" by (cases c)
  with Cons show ?case by (simp add: tracked_loadScript)
qed

lemma in_flight_unreachable:
  assumes "tracked s" and "scriptKey props \<noteq> []"
      and "\<not> (hasLoaded (scriptKey props) s \<and> \<not> reloadOnNavigation e props s)"
  shows "loadScript e props s = createScript props (scriptKey props) (prepared e props s)"
proof -
  have "ScriptCache (prepared e props s) (scriptKey props) = None"
  proof (cases "ScriptCache s (scriptKey props)")
    case None
    then show ?thesis
      by (simp add: prepared_def Let_def reloadPurge_def)
  next
    case (Some c)
    with assms(1) obtain el where "scriptKey props \<in> LoadCache s" "script c = Some el"
      unfolding tracked_def by blast
    with assms(2) Some show ?thesis
      by (simp add: prepared_def Let_def reloadPurge_def hasLoaded_def)
  qed
  with assms(3) show ?thesis by (rule loadScript_create)
qed

lemma runCalls_no_in_flight:
  assumes "scriptKey props \<noteq> []"
  shows "loadScript e props (runCalls initState cs)
           = (Resolved alreadyLoaded, trackPath e (scriptKey props) (runCalls initState cs)) \<or>
         loadScript e props (runCalls initState cs)
           = createScript props (scriptKey props) (prepared e props (runCalls initState cs))"
proof (cases "hasLoaded (scriptKey props) (runCalls initState cs) \<and>
    \<not> reloadOnNavigation e props (runCalls initState cs)")
  case True
  then show ?thesis by (simp add: loadScript_already)
next
  case False
  have "tracked (runCalls initState cs)"
    using tracked_initState by (rule tracked_runCalls)
  from in_flight_unreachable [OF this assms False] show ?thesis ..
qed

subsection \<open>Inline descriptors\<close>

lemma loadScript_dropAsyncDefer_inline:
  assumes "\<not> truthy (getProp props ''src'')"
  shows "loadScript e (dropAsyncDefer props) s = loadScript e props s"
proof -
  have r: "reloadOnNavigation e (dropAsyncDefer props) s = reloadOnNavigation e props s"
    by (simp add: reloadOnNavigation_def scriptKey_dropAsyncDefer getProp_dropAsyncDefer)
  have p: "prepared e (dropAsyncDefer props) s = prepared e props s"
    by (simp add: prepared_def scriptKey_dropAsyncDefer getProp_dropAsyncDefer)
  have c: "createScript (dropAsyncDefer props) k t = createScript props k t" for k t
    using assms
    by (simp add: createScript_def getProp_dropAsyncDefer elementAttributes_dropAsyncDefer)
  show ?thesis
    by (simp add: loadScript_unfold r p c scriptKey_dropAsyncDefer split: option.splits)
qed

subsection \<open>A cache entry met by a call\<close>

lemma reloadPurge_fields [simp]:
  "elements (reloadPurge target k s) = elements s"
  "promises (reloadPurge target k s) = promises s"
  "ignoreProps (reloadPurge target k s) = ignoreProps s"
  "PrevPathCache (reloadPurge target k s) = PrevPathCache s"
  "docHead (reloadPurge target k s) = docHead s"
  "docBody (reloadPurge target k s) = docBody s"
  "calls (reloadPurge target k s) = calls s"
  by (simp_all add: reloadPurge_def split: option.splits)

text \<open>The three ways a call can go when the cache holds an entry for its key.\<close>

lemma entry_reached:
  assumes "ScriptCache s (scriptKey props) = Some c"
      and "\<not> hasLoaded (scriptKey props) s \<or> (reloadOnNavigation e props s \<and> script c = None)"
  shows "loadScript e props s
           = inFlight (scriptKey props) c
               (startTimer e (scriptKey props) (trackPath e (scriptKey props) s))"
proof -
  from assms have p: "prepared e props s = startTimer e (scriptKey props) (trackPath e (scriptKey props) s)"
    by (auto simp: prepared_def Let_def reloadPurge_def)
  from assms(2) have path: "\<not> (hasLoaded (scriptKey props) s \<and> \<not> reloadOnNavigation e props s)"
    by blast
  have "ScriptCache (prepared e props s) (scriptKey props) = Some c"
    using assms(1) by (simp add: p)
  from loadScript_inFlight [OF path this] show ?thesis
    by (simp add: p)
qed

lemma entry_purged:
  assumes "ScriptCache s (scriptKey props) = Some c" and "script c = Some old"
      and "hasLoaded (scriptKey props) s" and "reloadOnNavigation e props s"
      and "target = withDefault (getProp props ''target'') (JStr ''body'')"
      and "purged = reloadPurge target (scriptKey props) (trackPath e (scriptKey props) s)"
  shows "loadScript e props s
           = createScript props (scriptKey props) (startTimer e (scriptKey props) purged)"
    and "ScriptCache purged (scriptKey props) = None"
    and "scriptKey props \<notin> LoadCache purged"
    and "frames purged = frames s @ [RemoveTask target old]"
proof -
  have pu: "purged = (trackPath e (scriptKey props) s)
      \<lparr>LoadCache := LoadCache s - {scriptKey props},
        ScriptCache := (ScriptCache s)(scriptKey props := None),
        StartTimeCache := (StartTimeCache s)(scriptKey props := None),
        frames := frames s @ [RemoveTask target old]\<rparr>"
    using assms(1,2) by (simp add: assms(6) reloadPurge_def)
  show c: "ScriptCache purged (scriptKey props) = None"
    and "scriptKey props \<notin> LoadCache purged"
    and "frames purged = frames s @ [RemoveTask target old]"
    by (simp_all add: pu)
  have p: "prepared e props s = startTimer e (scriptKey props) purged"
    using assms(3) by (simp add: prepared_def Let_def assms(5,6))
  from assms(3,4) have path: "\<not> (hasLoaded (scriptKey props) s \<and> \<not> reloadOnNavigation e props s)"
    by blast
  have "ScriptCache (prepared e props s) (scriptKey props) = None"
    using c by (simp add: p)
  from loadScript_create [OF path this] show "loadScript e props s
           = createScript props (scriptKey props) (startTimer e (scriptKey props) purged)"
    by (simp add: p)
qed

subsection \<open>Events and callbacks\<close>

lemma invoke_fields [simp]:
  "elements (invoke f a s) = elements s"
  "promises (invoke f a s) = promises s"
  "calls (invoke f a s) = calls s @ [Invoke f a]"
  by (simp_all add: invoke_def)

lemma logScriptPerformance_fields [simp]:
  "elements (logScriptPerformance k v s) = elements s"
  "promises (logScriptPerformance k v s) = promises s"
  "calls (logScriptPerformance k v s) = calls s @ [LogScriptPerformance k v]"
  by (simp_all add: logScriptPerformance_def)

lemma resolvePromise_fields [simp]:
  "elements (resolvePromise p r s) = elements s"
  "calls (resolvePromise p r s) = calls s"
  "length (promises (resolvePromise p r s)) = length (promises s)"
  by (simp_all add: resolvePromise_def)

lemma rejectPromise_fields [simp]:
  "elements (rejectPromise dev p r s) = elements s"
  "length (promises (rejectPromise dev p r s)) = length (promises s)"
  by (simp_all add: rejectPromise_def Let_def)

lemma fireLoad_fields [simp]:
  "elements (fireLoad dev el ev s) = elements s"
  "length (promises (fireLoad dev el ev s)) = length (promises s)"
  by (simp_all add: fireLoad_def Let_def)

lemma fireError_fields [simp]:
  "elements (fireError dev el ev s) = elements s"
  "length (promises (fireError dev el ev s)) = length (promises s)"
  by (simp_all add: fireError_def)

text \<open>Once the promise of an element has settled, its events leave the promises alone.\<close>

lemma fireLoad_settled:
  assumes "el < length (elements s)" and "h_promise (elements s ! el) < length (promises s)"
      and "settled (promises s ! h_promise (elements s ! el)) \<noteq> Pending"
  shows "promises (fireLoad dev el ev s) = promises s"
  using assms by (simp add: fireLoad_def Let_def resolvePromise_def)

lemma fireError_settled:
  assumes "el < length (elements s)" and "h_promise (elements s ! el) < length (promises s)"
      and "settled (promises s ! h_promise (elements s ! el)) \<noteq> Pending"
  shows "fireError dev el ev s = s"
  using assms by (simp add: fireError_def rejectPromise_def)

lemma fireLoad_returns:
  assumes "el < length (elements s)"
      and "returnsNormally (h_onLoad (elements s ! el))"
      and "returnsNormally (h_onReady (elements s ! el))"
  shows "fireLoad dev el ev s =
           resolvePromise (h_promise (elements s ! el)) \<lparr>status = True, event = EvBrowser ev\<rparr>
             (s\<lparr>calls := calls s
                @ (if truthy (h_onLoad (elements s ! el))
                   then [Invoke (h_onLoad (elements s ! el)) (ArgEvent (EvBrowser ev))] else [])
                @ (if truthy (h_onReady (elements s ! el))
                   then [Invoke (h_onReady (elements s ! el)) (ArgEvent (EvBrowser ev))] else [])
                @ (if dev then [LogScriptPerformance (h_key (elements s ! el)) (h_src (elements s ! el))]
                   else [])\<rparr>)"
  using assms
  by (simp add: fireLoad_def Let_def returnsNormally_def invoke_def logScriptPerformance_def)

lemma fireLoad_throws:
  assumes "el < length (elements s)"
      and "\<not> (returnsNormally (h_onLoad (elements s ! el)) \<and> returnsNormally (h_onReady (elements s ! el)))"
  shows "promises (fireLoad dev el ev s) = promises s"
  using assms
  by (auto simp: fireLoad_def Let_def returnsNormally_def)

subsection \<open>Callbacks and the document\<close>

lemma runTask_fields [simp]:
  "elements (runTask t s) = elements s"
  "promises (runTask t s) = promises s"
  "ignoreProps (runTask t s) = ignoreProps s"
  "frames (runTask t s) = frames s"
  "LoadCache (runTask t s) = LoadCache s"
  "ScriptCache (runTask t s) = ScriptCache s"
  "calls (runTask t s) = calls s"
  by (cases t; simp add: appendChild_def removeChild_def)+

lemma runTask_docs: "docsOf (runTask t s) = taskDocs t (docsOf s)"
  by (cases t) (simp_all add: docsOf_def appendChild_def removeChild_def)

lemma nextCallback_empty: "frames s = [] \<Longrightarrow> nextCallback s = s"
  by (simp add: nextCallback_def)

lemma nextCallback_fields:
  assumes "frames s = t # rest"
  shows "elements (nextCallback s) = elements s"
    and "frames (nextCallback s) = rest"
    and "LoadCache (nextCallback s) = LoadCache s"
    and "ScriptCache (nextCallback s) = ScriptCache s"
    and "docsOf (nextCallback s) = taskDocs t (docsOf s)"
  using assms runTask_docs [of t s] by (simp_all add: nextCallback_def docsOf_def)

lemma taskDocs_other:
  assumes "taskElement t \<notin> K"
  shows "{x \<in> set (fst (taskDocs t d)). x \<in> K} = {x \<in> set (fst d). x \<in> K}"
    and "{x \<in> set (snd (taskDocs t d)). x \<in> K} = {x \<in> set (snd d). x \<in> K}"
  using assms by (cases t; cases d; auto)+

lemma keyDocs_sets:
  "keyDocs T K d =
     ((\<forall>x \<in> {x \<in> set (fst d). x \<in> K} \<union> {x \<in> set (snd d). x \<in> K}.
        \<forall>y \<in> {x \<in> set (fst d). x \<in> K} \<union> {x \<in> set (snd d). x \<in> K}. x = y) \<and>
      (T \<noteq> JStr ''head'' \<longrightarrow> {x \<in> set (fst d). x \<in> K} = {}) \<and>
      (T \<noteq> JStr ''body'' \<longrightarrow> {x \<in> set (snd d). x \<in> K} = {}))"
  unfolding keyDocs_def attachedSet_def by blast

lemma keyDocs_other: "taskElement t \<notin> K \<Longrightarrow> keyDocs T K (taskDocs t d) = keyDocs T K d"
  unfolding keyDocs_sets by (simp add: taskDocs_other)

lemma attached_other:
  "taskElement t \<notin> K \<Longrightarrow> attachedSet (taskDocs t d) \<inter> K = attachedSet d \<inter> K"
  using taskDocs_other [of t K d] unfolding attachedSet_def by blast

lemma fold_other:
  "\<forall>t \<in> set ts. taskElement t \<notin> K \<Longrightarrow>
   attachedSet (fold taskDocs ts d) \<inter> K = attachedSet d \<inter> K"
  by (induction ts arbitrary: d) (simp_all add: attached_other)

lemma allAlong_other:
  "\<forall>t \<in> set ts. taskElement t \<notin> K \<Longrightarrow> allAlong (keyDocs T K) ts d = keyDocs T K d"
  by (induction ts arbitrary: d) (auto simp: keyDocs_other)

lemma allAlong_append:
  "allAlong P (q @ ts) d = (allAlong P q d \<and> allAlong P ts (fold taskDocs q d))"
proof (induction q arbitrary: d)
  case Nil
  show ?case by (cases ts) auto
next
  case (Cons t q)
  then show ?case by auto
qed

lemma allAlong_now: "allAlong P q d \<Longrightarrow> P d"
  by (cases q) simp_all

lemma allAlong_end: "allAlong P q d \<Longrightarrow> P (fold taskDocs q d)"
  by (induction q arbitrary: d) simp_all

lemma taskDocs_bound:
  assumes "taskElement t < n" and "\<forall>el \<in> attachedSet d. el < n"
  shows "\<forall>el \<in> attachedSet (taskDocs t d). el < n"
  using assms by (cases t; cases d; auto simp: attachedSet_def)

lemma fold_bound:
  assumes "\<forall>t \<in> set q. taskElement t < n" and "\<forall>el \<in> attachedSet d. el < n"
  shows "\<forall>el \<in> attachedSet (fold taskDocs q d). el < n"
  using assms
proof (induction q arbitrary: d)
  case Nil
  then show ?case by simp
next
  case (Cons t q)
  from Cons.prems have "\<forall>el \<in> attachedSet (taskDocs t d). el < n"
    by (intro taskDocs_bound) simp_all
  with Cons show ?case by simp
qed

lemma keyDocs_cong:
  assumes "\<forall>el \<in> attachedSet d. (el \<in> K) = (el \<in> K')"
  shows "keyDocs T K d = keyDocs T K' d"
  using assms unfolding keyDocs_def attachedSet_def by auto

lemma allAlong_cong:
  assumes "\<forall>t \<in> set q. taskElement t < n" and "\<forall>el \<in> attachedSet d. el < n"
      and "\<forall>el < n. (el \<in> K) = (el \<in> K')"
  shows "allAlong (keyDocs T K) q d = allAlong (keyDocs T K') q d"
  using assms(1,2)
proof (induction q arbitrary: d)
  case Nil
  with assms(3) have "\<forall>el \<in> attachedSet d. (el \<in> K) = (el \<in> K')" by blast
  then show ?case by (simp add: keyDocs_cong)
next
  case (Cons t q)
  from Cons.prems assms(3) have "\<forall>el \<in> attachedSet d. (el \<in> K) = (el \<in> K')" by blast
  then have now: "keyDocs T K d = keyDocs T K' d" by (rule keyDocs_cong)
  from Cons.prems have "\<forall>el \<in> attachedSet (taskDocs t d). el < n"
    by (intro taskDocs_bound) simp_all
  with Cons have "allAlong (keyDocs T K) q (taskDocs t d) = allAlong (keyDocs T K') q (taskDocs t d)"
    by simp
  with now show ?case by simp
qed

lemma noKey_keyDocs: "attachedSet d \<inter> K = {} \<Longrightarrow> keyDocs T K d"
  unfolding keyDocs_def attachedSet_def by blast

lemma remove_step:
  assumes "keyDocs T K d" and "attachedSet d \<inter> K \<subseteq> {old}"
  shows "attachedSet (taskDocs (RemoveTask T old) d) \<inter> K = {}"
  using assms unfolding keyDocs_def attachedSet_def by (cases d) auto

lemma append_step:
  assumes "attachedSet d \<inter> K = {}"
  shows "keyDocs T K (taskDocs (AppendTask T n) d)"
    and "attachedSet (taskDocs (AppendTask T n) d) \<inter> K \<subseteq> {n}"
  using assms unfolding keyDocs_def attachedSet_def by (cases d; auto)+

lemma keyElements_same: "elements s' = elements s \<Longrightarrow> keyElements s' k = keyElements s k"
  by (simp add: keyElements_def)

lemma keyElements_snoc:
  assumes "elements s' = elements s @ [x]"
  shows "keyElements s' k =
           (if h_key x = k then insert (length (elements s)) (keyElements s k) else keyElements s k)"
  using assms by (auto simp: keyElements_def nth_append less_Suc_eq)

lemma keyElements_bound: "el \<in> keyElements s k \<Longrightarrow> el < length (elements s)"
  by (simp add: keyElements_def)

subsection \<open>What one call does to the queue and the caches\<close>

lemma loadScript_shape:
  assumes t: "tracked s"
  obtains (same) "elements (snd (loadScript e props s)) = elements s"
      "frames (snd (loadScript e props s)) = frames s"
      "docsOf (snd (loadScript e props s)) = docsOf s"
      "ScriptCache (snd (loadScript e props s)) = ScriptCache s"
      "LoadCache (snd (loadScript e props s)) = LoadCache s"
    | (fresh) "ScriptCache s (scriptKey props) = None"
      "\<not> hasLoaded (scriptKey props) s \<or> reloadOnNavigation e props s"
      "elements (snd (loadScript e props s)) = elements s @ [newElement props s]"
      "frames (snd (loadScript e props s))
         = frames s @ [AppendTask (withDefault (getProp props ''target'') (JStr ''body'')) (length (elements s))]"
      "docsOf (snd (loadScript e props s)) = docsOf s"
      "ScriptCache (snd (loadScript e props s)) =
         (if truthy (getProp props ''src'')
          then (ScriptCache s)(scriptKey props \<mapsto>
                 \<lparr>promise = Some (length (promises s)), script = Some (length (elements s))\<rparr>)
          else ScriptCache s)"
      "LoadCache (snd (loadScript e props s)) = insert (scriptKey props) (LoadCache s)"
    | (reloaded) c old where "hasLoaded (scriptKey props) s" "reloadOnNavigation e props s"
      "ScriptCache s (scriptKey props) = Some c" "script c = Some old"
      "elements (snd (loadScript e props s)) = elements s @ [newElement props s]"
      "frames (snd (loadScript e props s))
         = frames s @ [RemoveTask (withDefault (getProp props ''target'') (JStr ''body'')) old,
                       AppendTask (withDefault (getProp props ''target'') (JStr ''body'')) (length (elements s))]"
      "docsOf (snd (loadScript e props s)) = docsOf s"
      "ScriptCache (snd (loadScript e props s)) =
         (if truthy (getProp props ''src'')
          then (ScriptCache s)(scriptKey props \<mapsto>
                 \<lparr>promise = Some (length (promises s)), script = Some (length (elements s))\<rparr>)
          else (ScriptCache s)(scriptKey props := None))"
      "LoadCache (snd (loadScript e props s)) = LoadCache s"
proof (cases "hasLoaded (scriptKey props) s \<and> \<not> reloadOnNavigation e props s")
  case True
  then have "loadScript e props s = (Resolved alreadyLoaded, trackPath e (scriptKey props) s)"
    by (simp add: loadScript_already)
  then show ?thesis
    by (intro same) (simp_all add: docsOf_def)
next
  case False
  show ?thesis
  proof (cases rule: prepared_cases [of e props s])
    case kept
    show ?thesis
    proof (cases "ScriptCache s (scriptKey props)")
      case None
      with kept have n: "ScriptCache (prepared e props s) (scriptKey props) = None" by simp
      note l = loadScript_create [OF False n]
      show ?thesis
      proof (rule fresh)
        show "ScriptCache s (scriptKey props) = None" by (rule None)
        show "\<not> hasLoaded (scriptKey props) s \<or> reloadOnNavigation e props s"
          using False by blast
      qed (simp_all add: l kept docsOf_def newElement_def)
    next
      case (Some c)
      with kept have n: "ScriptCache (prepared e props s) (scriptKey props) = Some c" by simp
      note l = loadScript_inFlight [OF False n]
      from t Some have "scriptKey props \<in> LoadCache s"
        unfolding tracked_def by blast
      then have "insert (scriptKey props) (LoadCache s) = LoadCache s" by blast
      then show ?thesis
        by (intro same) (simp_all add: l kept docsOf_def)
    qed
  next
    case (purged c old)
    from purged(6) have n: "ScriptCache (prepared e props s) (scriptKey props) = None" by simp
    note l = loadScript_create [OF False n]
    from purged(1) have "scriptKey props \<in> LoadCache s" by (simp add: hasLoaded_def)
    then have lc: "insert (scriptKey props) (LoadCache s) = LoadCache s" by blast
    show ?thesis
    proof (rule reloaded)
      show "hasLoaded (scriptKey props) s" by (rule purged(1))
      show "reloadOnNavigation e props s" using False purged(1) by blast
      show "ScriptCache s (scriptKey props) = Some c" by (rule purged(2))
      show "script c = Some old" by (rule purged(3))
    qed (simp_all add: l purged(4,5,6) lc docsOf_def newElement_def)
  qed
qed

lemma newElement_key [simp]: "h_key (newElement props s) = scriptKey props"
  by (simp add: newElement_def)

subsection \<open>The document stays well formed\<close>

lemma wellFormed_initState: "wellFormed initState"
  by (simp add: wellFormed_def tracked_initState) (simp add: initState_def)

lemma wellFormed_loadScript:
  assumes "wellFormed s"
  shows "wellFormed (snd (loadScript e props s))"
proof -
  from assms have t: "tracked s" by (simp add: wellFormed_def)
  have d: "docsOf (snd (loadScript e props s)) = docsOf s"
    by (cases rule: loadScript_shape [OF t, of e props]) simp_all
  have l: "length (elements s) \<le> length (elements (snd (loadScript e props s)))"
    by (cases rule: loadScript_shape [OF t, of e props]) simp_all
  from d have "docHead (snd (loadScript e props s)) = docHead s"
      "docBody (snd (loadScript e props s)) = docBody s"
    by (simp_all add: docsOf_def)
  with assms l tracked_loadScript [OF t, of e props] show ?thesis
    unfolding wellFormed_def by (auto intro: less_le_trans)
qed

lemma taskDocs_distinct:
  assumes "distinct (fst d @ snd d)"
  shows "distinct (fst (taskDocs t d) @ snd (taskDocs t d))"
  using assms by (cases t; cases d; auto simp: distinct_removeAll)

lemma wellFormed_nextCallback:
  assumes "wellFormed s"
  shows "wellFormed (nextCallback s)"
proof (cases "frames s")
  case Nil
  with assms show ?thesis by (simp add: nextCallback_empty)
next
  case (Cons t rest)
  note f = nextCallback_fields [OF Cons]
  from assms Cons have el: "taskElement t < length (elements s)"
    unfolding wellFormed_def tracked_def by simp
  from assms have "\<forall>el \<in> attachedSet (docsOf s). el < length (elements s)"
    unfolding wellFormed_def attachedSet_def docsOf_def by simp
  with el have "\<forall>el \<in> attachedSet (taskDocs t (docsOf s)). el < length (elements s)"
    by (rule taskDocs_bound)
  then have b: "\<forall>el \<in> set (docHead (nextCallback s) @ docBody (nextCallback s)). el < length (elements s)"
    using f(5) unfolding attachedSet_def docsOf_def by (metis fst_conv snd_conv set_append)
  from assms have "distinct (fst (docsOf s) @ snd (docsOf s))"
    unfolding wellFormed_def docsOf_def by simp
  then have "distinct (fst (taskDocs t (docsOf s)) @ snd (taskDocs t (docsOf s)))"
    by (rule taskDocs_distinct)
  then have d: "distinct (docHead (nextCallback s) @ docBody (nextCallback s))"
    using f(5) unfolding docsOf_def by (metis fst_conv snd_conv)
  from assms Cons have tr: "tracked (nextCallback s)"
    unfolding wellFormed_def tracked_def by (simp add: f)
  from tr d b show ?thesis
    unfolding wellFormed_def by (simp add: f(1))
qed

lemma wellFormed_runSteps: "wellFormed s \<Longrightarrow> wellFormed (runSteps s steps)"
proof (induction steps arbitrary: s)
  case Nil
  then show ?case by simp
next
  case (Cons st steps)
  then show ?case
    by (cases st) (simp_all add: wellFormed_loadScript wellFormed_nextCallback)
qed

lemma attachedFor_at_most_one:
  assumes wf: "wellFormed s"
      and one: "\<forall>x \<in> attachedSet (docsOf s). \<forall>y \<in> attachedSet (docsOf s).
                  x \<in> keyElements s k \<longrightarrow> y \<in> keyElements s k \<longrightarrow> x = y"
  shows "length (attachedFor s k) \<le> 1"
proof -
  from wf have d: "distinct (attachedFor s k)"
    unfolding wellFormed_def attachedFor_def by (intro distinct_filter) simp
  have "x = y" if "x \<in> set (attachedFor s k)" "y \<in> set (attachedFor s k)" for x y
  proof -
    from that wf have "x \<in> attachedSet (docsOf s)" "y \<in> attachedSet (docsOf s)"
        "x \<in> keyElements s k" "y \<in> keyElements s k"
      unfolding attachedFor_def attachedSet_def docsOf_def keyElements_def wellFormed_def by auto
    with one show ?thesis by blast
  qed
  then have "set (attachedFor s k) \<subseteq> {hd (attachedFor s k)}"
    by (cases "attachedFor s k") auto
  then have "card (set (attachedFor s k)) \<le> 1"
    by (metis card_mono finite.emptyI finite.insertI card_1_singleton_iff One_nat_def
        card.empty card.insert empty_iff le_refl)
  with d show ?thesis
    by (simp add: distinct_card)
qed

subsection \<open>A key whose calls carry a source URL and one target\<close>

lemma srcInv_initState: "srcInv initState k T"
  by (simp add: srcInv_def initState_def docsOf_def keyDocs_def attachedSet_def)

lemma srcInv_same:
  assumes "elements s' = elements s" "frames s' = frames s" "docsOf s' = docsOf s"
      "ScriptCache s' = ScriptCache s" "LoadCache s' = LoadCache s"
  shows "srcInv s' k T = srcInv s k T"
  by (simp add: srcInv_def keyElements_same [OF assms(1)] assms(2-))

lemma srcInv_nextCallback:
  assumes "srcInv s k T"
  shows "srcInv (nextCallback s) k T"
proof (cases "frames s")
  case Nil
  with assms show ?thesis by (simp add: nextCallback_empty)
next
  case (Cons t rest)
  note f = nextCallback_fields [OF Cons]
  from assms show ?thesis
    unfolding srcInv_def by (simp add: f keyElements_same [OF f(1)] Cons)
qed

lemma srcInv_extend:
  assumes inv: "srcInv s k T"
      and K: "keyElements s' k = keyElements s k"
      and fr: "frames s' = frames s @ ts"
      and other: "\<forall>t \<in> set ts. taskElement t \<notin> keyElements s k"
      and docs: "docsOf s' = docsOf s"
      and sc: "ScriptCache s' k = ScriptCache s k"
      and lc: "(k \<in> LoadCache s') = (k \<in> LoadCache s)"
  shows "srcInv s' k T"
proof -
  let ?fin = "fold taskDocs (frames s) (docsOf s)"
  from inv have "allAlong (keyDocs T (keyElements s k)) (frames s) (docsOf s)"
    by (simp add: srcInv_def)
  then have a: "allAlong (keyDocs T (keyElements s k)) (frames s @ ts) (docsOf s)"
    by (simp add: allAlong_append allAlong_other [OF other] allAlong_end)
  have f: "attachedSet (fold taskDocs (frames s @ ts) (docsOf s)) \<inter> keyElements s k
         = attachedSet ?fin \<inter> keyElements s k"
    by (simp add: fold_other [OF other])
  from inv a show ?thesis
    unfolding srcInv_def K fr docs sc lc f by simp
qed

lemma srcInv_other:
  assumes wf: "wellFormed s" and inv: "srcInv s k T" and key: "scriptKey props \<noteq> k"
  shows "srcInv (snd (loadScript e props s)) k T"
proof -
  from wf have t: "tracked s" by (simp add: wellFormed_def)
  have new: "length (elements s) \<notin> keyElements s k"
    by (simp add: keyElements_def)
  from t show ?thesis
  proof (cases rule: loadScript_shape [of s e props])
    case same
    from inv srcInv_same [OF same, of k T] show ?thesis by simp
  next
    case fresh
    from inv show ?thesis
    proof (rule srcInv_extend)
      show "keyElements (snd (loadScript e props s)) k = keyElements s k"
        using key by (simp add: keyElements_snoc [OF fresh(3)])
      show "frames (snd (loadScript e props s))
         = frames s @ [AppendTask (withDefault (getProp props ''target'') (JStr ''body'')) (length (elements s))]"
        by (rule fresh(4))
      show "\<forall>t \<in> set [AppendTask (withDefault (getProp props ''target'') (JStr ''body'')) (length (elements s))].
              taskElement t \<notin> keyElements s k"
        using new by simp
      show "docsOf (snd (loadScript e props s)) = docsOf s" by (rule fresh(5))
      show "ScriptCache (snd (loadScript e props s)) k = ScriptCache s k"
        using key by (simp add: fresh(6))
      show "(k \<in> LoadCache (snd (loadScript e props s))) = (k \<in> LoadCache s)"
        using key by (auto simp: fresh(7))
    qed
  next
    case (reloaded c old)
    from t reloaded(3,4) have "old < length (elements s) \<and> h_key (elements s ! old) = scriptKey props"
      unfolding tracked_def by fastforce
    with key have old: "old \<notin> keyElements s k"
      by (simp add: keyElements_def)
    from inv show ?thesis
    proof (rule srcInv_extend)
      show "keyElements (snd (loadScript e props s)) k = keyElements s k"
        using key by (simp add: keyElements_snoc [OF reloaded(5)])
      show "frames (snd (loadScript e props s))
         = frames s @ [RemoveTask (withDefault (getProp props ''target'') (JStr ''body'')) old,
                       AppendTask (withDefault (getProp props ''target'') (JStr ''body'')) (length (elements s))]"
        by (rule reloaded(6))
      show "\<forall>t \<in> set [RemoveTask (withDefault (getProp props ''target'') (JStr ''body'')) old,
                       AppendTask (withDefault (getProp props ''target'') (JStr ''body'')) (length (elements s))].
              taskElement t \<notin> keyElements s k"
        using new old by simp
      show "docsOf (snd (loadScript e props s)) = docsOf s" by (rule reloaded(7))
      show "ScriptCache (snd (loadScript e props s)) k = ScriptCache s k"
        using key by (simp add: reloaded(8))
      show "(k \<in> LoadCache (snd (loadScript e props s))) = (k \<in> LoadCache s)"
        by (simp add: reloaded(9))
    qed
  qed
qed

lemma srcInv_create:
  assumes wf: "wellFormed s"
      and along: "allAlong (keyDocs T (keyElements s k)) (frames s) (docsOf s)"
      and pre: "allAlong (keyDocs T (keyElements s k)) pre (fold taskDocs (frames s) (docsOf s))"
      and bound: "\<forall>t \<in> set pre. taskElement t < length (elements s)"
      and clear: "attachedSet (fold taskDocs (frames s @ pre) (docsOf s)) \<inter> keyElements s k = {}"
      and K: "keyElements s' k = insert (length (elements s)) (keyElements s k)"
      and fr: "frames s' = frames s @ pre @ [AppendTask T (length (elements s))]"
      and docs: "docsOf s' = docsOf s"
      and sc: "ScriptCache s' k = Some \<lparr>promise = Some p, script = Some (length (elements s))\<rparr>"
  shows "srcInv s' k T"
proof -
  let ?n = "length (elements s)"
  let ?K = "keyElements s k"
  let ?q = "frames s @ pre"
  let ?fin = "fold taskDocs ?q (docsOf s)"
  from wf have b1: "\<forall>t \<in> set ?q. taskElement t < ?n"
    using bound unfolding wellFormed_def tracked_def by auto
  from wf have b2: "\<forall>el \<in> attachedSet (docsOf s). el < ?n"
    unfolding wellFormed_def attachedSet_def docsOf_def by simp
  have same: "\<forall>el < ?n. (el \<in> ?K) = (el \<in> insert ?n ?K)"
    by auto
  from along pre have "allAlong (keyDocs T ?K) ?q (docsOf s)"
    by (simp add: allAlong_append)
  then have a: "allAlong (keyDocs T (insert ?n ?K)) ?q (docsOf s)"
    using allAlong_cong [OF b1 b2 same] by simp
  from fold_bound [OF b1 b2] have "?n \<notin> attachedSet ?fin"
    by auto
  with clear have c: "attachedSet ?fin \<inter> insert ?n ?K = {}"
    by auto
  note ap = append_step [OF c, of T ?n]
  have fold: "fold taskDocs (frames s @ pre @ [AppendTask T ?n]) (docsOf s)
           = taskDocs (AppendTask T ?n) ?fin"
    by simp
  have "allAlong (keyDocs T (insert ?n ?K)) (?q @ [AppendTask T ?n]) (docsOf s)"
    unfolding allAlong_append [of _ ?q] using a ap(1) noKey_keyDocs [OF c] by simp
  then have all: "allAlong (keyDocs T (insert ?n ?K)) (frames s @ pre @ [AppendTask T ?n]) (docsOf s)"
    by simp
  from ap(2) have "attachedSet (taskDocs (AppendTask T ?n) ?fin) \<inter> insert ?n ?K \<subseteq> {?n}" .
  with all show ?thesis
    unfolding srcInv_def K fr docs sc fold by simp
qed

lemma srcInv_call:
  assumes wf: "wellFormed s" and inv: "srcInv s k T" and key: "scriptKey props = k"
      and src: "truthy (getProp props ''src'')"
      and target: "withDefault (getProp props ''target'') (JStr ''body'') = T"
  shows "srcInv (snd (loadScript e props s)) k T"
proof -
  from wf have t: "tracked s" by (simp add: wellFormed_def)
  let ?fin = "fold taskDocs (frames s) (docsOf s)"
  from inv have along: "allAlong (keyDocs T (keyElements s k)) (frames s) (docsOf s)"
    by (simp add: srcInv_def)
  then have fin: "keyDocs T (keyElements s k) ?fin"
    by (rule allAlong_end)
  from t show ?thesis
  proof (cases rule: loadScript_shape [of s e props])
    case same
    from inv srcInv_same [OF same, of k T] show ?thesis by simp
  next
    case fresh
    from inv fresh(1) key have clear: "attachedSet ?fin \<inter> keyElements s k = {}"
      by (simp add: srcInv_def)
    show ?thesis
    proof (rule srcInv_create [OF wf along, of "[]"])
      show "allAlong (keyDocs T (keyElements s k)) [] ?fin" using fin by simp
      show "\<forall>t \<in> set []. taskElement t < length (elements s)" by simp
      show "attachedSet (fold taskDocs (frames s @ []) (docsOf s)) \<inter> keyElements s k = {}"
        using clear by simp
      show "keyElements (snd (loadScript e props s)) k = insert (length (elements s)) (keyElements s k)"
        using key by (simp add: keyElements_snoc [OF fresh(3)])
      show "frames (snd (loadScript e props s)) = frames s @ [] @ [AppendTask T (length (elements s))]"
        using target by (simp add: fresh(4))
      show "docsOf (snd (loadScript e props s)) = docsOf s" by (rule fresh(5))
      show "ScriptCache (snd (loadScript e props s)) k
          = Some \<lparr>promise = Some (length (promises s)), script = Some (length (elements s))\<rparr>"
        using key src by (simp add: fresh(6))
    qed
  next
    case (reloaded c old)
    from inv reloaded(3,4) key have only: "attachedSet ?fin \<inter> keyElements s k \<subseteq> {old}"
      unfolding srcInv_def by blast
    from t reloaded(3,4) have old: "old < length (elements s)"
      unfolding tracked_def by fastforce
    note rm = remove_step [OF fin only]
    show ?thesis
    proof (rule srcInv_create [OF wf along, of "[RemoveTask T old]"])
      show "allAlong (keyDocs T (keyElements s k)) [RemoveTask T old] ?fin"
        using fin noKey_keyDocs [OF rm] by simp
      show "\<forall>t \<in> set [RemoveTask T old]. taskElement t < length (elements s)"
        using old by simp
      show "attachedSet (fold taskDocs (frames s @ [RemoveTask T old]) (docsOf s)) \<inter> keyElements s k = {}"
        using rm by simp
      show "keyElements (snd (loadScript e props s)) k = insert (length (elements s)) (keyElements s k)"
        using key by (simp add: keyElements_snoc [OF reloaded(5)])
      show "frames (snd (loadScript e props s))
          = frames s @ [RemoveTask T old] @ [AppendTask T (length (elements s))]"
        using target by (simp add: reloaded(6))
      show "docsOf (snd (loadScript e props s)) = docsOf s" by (rule reloaded(7))
      show "ScriptCache (snd (loadScript e props s)) k
          = Some \<lparr>promise = Some (length (promises s)), script = Some (length (elements s))\<rparr>"
        using key src by (simp add: reloaded(8))
    qed
  qed
qed

subsection \<open>A key whose calls never ask for a reload\<close>

lemma onceInv_initState: "onceInv initState k"
  by (simp add: onceInv_def keyElements_def initState_def)

lemma onceInv_nextCallback: "onceInv s k \<Longrightarrow> onceInv (nextCallback s) k"
proof (cases "frames s")
  case Nil
  then show "onceInv s k \<Longrightarrow> ?thesis" by (simp add: nextCallback_empty)
next
  case (Cons t rest)
  note f = nextCallback_fields [OF Cons]
  show "onceInv s k \<Longrightarrow> ?thesis"
    unfolding onceInv_def by (simp add: keyElements_same [OF f(1)] f(3))
qed

lemma onceInv_loadScript:
  assumes wf: "wellFormed s" and inv: "onceInv s k" and k: "k \<noteq> []"
      and reload: "scriptKey props = k \<longrightarrow> \<not> truthy (withDefault (getProp props ''reload'') (JBool False))"
  shows "onceInv (snd (loadScript e props s)) k"
proof -
  from wf have t: "tracked s" by (simp add: wellFormed_def)
  from reload have nr: "scriptKey props = k \<Longrightarrow> \<not> reloadOnNavigation e props s"
    by (simp add: reloadOnNavigation_def)
  from t show ?thesis
  proof (cases rule: loadScript_shape [of s e props])
    case same
    with inv show ?thesis
      unfolding onceInv_def by (simp add: keyElements_same [OF same(1)])
  next
    case fresh
    show ?thesis
    proof (cases "scriptKey props = k")
      case False
      with inv show ?thesis
        unfolding onceInv_def by (simp add: keyElements_snoc [OF fresh(3)] fresh(7))
    next
      case True
      with fresh(2) nr k have "k \<notin> LoadCache s"
        by (auto simp: hasLoaded_def)
      with inv have "keyElements s k = {}"
        by (simp add: onceInv_def)
      with True show ?thesis
        unfolding onceInv_def by (simp add: keyElements_snoc [OF fresh(3)] fresh(7))
    qed
  next
    case (reloaded c old)
    with nr have "scriptKey props \<noteq> k" by blast
    with inv show ?thesis
      unfolding onceInv_def by (simp add: keyElements_snoc [OF reloaded(5)] reloaded(9))
  qed
qed

subsection \<open>Runs of calls and callbacks\<close>

lemma srcInv_runSteps:
  assumes "wellFormed s" and "srcInv s k T"
      and "\<forall>e props. Call e props \<in> set steps \<longrightarrow> scriptKey props = k \<longrightarrow>
             truthy (getProp props ''src'') \<and>
             withDefault (getProp props ''target'') (JStr ''body'') = T"
  shows "srcInv (runSteps s steps) k T"
  using assms
proof (induction steps arbitrary: s)
  case Nil
  then show ?case by simp
next
  case (Cons st steps)
  from Cons.prems(3) have rest:
    "\<forall>e props. Call e props \<in> set steps \<longrightarrow> scriptKey props = k \<longrightarrow>
       truthy (getProp props ''src'') \<and> withDefault (getProp props ''target'') (JStr ''body'') = T"
    by simp
  show ?case
  proof (cases st)
    case NextCallback
    have "srcInv (runSteps (nextCallback s) steps) k T"
      using wellFormed_nextCallback [OF Cons.prems(1)] srcInv_nextCallback [OF Cons.prems(2)] rest
      by (rule Cons.IH)
    with NextCallback show ?thesis by simp
  next
    case (Call e props)
    have inv: "srcInv (snd (loadScript e props s)) k T"
    proof (cases "scriptKey props = k")
      case True
      with Cons.prems(3) Call have "truthy (getProp props ''src'')"
          "withDefault (getProp props ''target'') (JStr ''body'') = T"
        by simp_all
      with Cons.prems(1,2) True show ?thesis by (rule srcInv_call)
    next
      case False
      with Cons.prems(1,2) show ?thesis by (rule srcInv_other)
    qed
    have "srcInv (runSteps (snd (loadScript e props s)) steps) k T"
      using wellFormed_loadScript [OF Cons.prems(1)] inv rest by (rule Cons.IH)
    with Call show ?thesis by simp
  qed
qed

lemma onceInv_runSteps:
  assumes "wellFormed s" and "onceInv s k" and "k \<noteq> []"
      and "\<forall>e props. Call e props \<in> set steps \<longrightarrow> scriptKey props = k \<longrightarrow>
             \<not> truthy (withDefault (getProp props ''reload'') (JBool False))"
  shows "onceInv (runSteps s steps) k"
  using assms(1,2,4)
proof (induction steps arbitrary: s)
  case Nil
  then show ?case by simp
next
  case (Cons st steps)
  from Cons.prems(3) have rest:
    "\<forall>e props. Call e props \<in> set steps \<longrightarrow> scriptKey props = k \<longrightarrow>
       \<not> truthy (withDefault (getProp props ''reload'') (JBool False))"
    by simp
  show ?case
  proof (cases st)
    case NextCallback
    have "onceInv (runSteps (nextCallback s) steps) k"
      using wellFormed_nextCallback [OF Cons.prems(1)] onceInv_nextCallback [OF Cons.prems(2)] rest
      by (rule Cons.IH)
    with NextCallback show ?thesis by simp
  next
    case (Call e props)
    from Cons.prems(3) Call
    have "scriptKey props = k \<longrightarrow> \<not> truthy (withDefault (getProp props ''reload'') (JBool False))"
      by simp
    with Cons.prems(1,2) assms(3) have inv: "onceInv (snd (loadScript e props s)) k"
      by (rule onceInv_loadScript)
    have "onceInv (runSteps (snd (loadScript e props s)) steps) k"
      using wellFormed_loadScript [OF Cons.prems(1)] inv rest by (rule Cons.IH)
    with Call show ?thesis by simp
  qed
qed

lemmas steps_eval =
  nextCallback_def appendChild_def removeChild_def attachedFor_def

text \<open>An animation frame is the run of the callbacks that are queued when it starts.\<close>

lemma runTask_frames: "runTask t (s\<lparr>frames := q\<rparr>) = (runTask t s)\<lparr>frames := q\<rparr>"
  by (cases t) (simp_all add: appendChild_def removeChild_def)

lemma fold_runTask_frames: "fold runTask ts (s\<lparr>frames := q\<rparr>) = (fold runTask ts s)\<lparr>frames := q\<rparr>"
  by (induction ts arbitrary: s) (simp_all add: runTask_frames)

lemma runFrame_steps: "runSteps s (replicate (length (frames s)) NextCallback) = runFrame s"
proof (induction "frames s" arbitrary: s)
  case Nil
  from Nil [symmetric] have "s\<lparr>frames := []\<rparr> = s" by simp
  with Nil [symmetric] show ?case by (simp add: runFrame_def)
next
  case (Cons t rest)
  let ?s1 = "(runTask t s)\<lparr>frames := rest\<rparr>"
  from Cons(2) [symmetric] have n: "nextCallback s = ?s1"
    by (simp add: nextCallback_def)
  have "rest = frames ?s1" by simp
  then have "runSteps ?s1 (replicate (length (frames ?s1)) NextCallback) = runFrame ?s1"
    by (rule Cons(1))
  then have "runSteps ?s1 (replicate (length rest) NextCallback) = runFrame ?s1"
    by simp
  also have "runFrame ?s1 = runFrame s"
    using Cons(2) [symmetric] by (simp add: runFrame_def fold_runTask_frames)
  finally show ?case
    using Cons(2) [symmetric] n by simp
qed

section \<open>One live element per key\<close>

text \<open>
  C1, as stated for every key, fails in two ways. An inline script is not tracked in
  \<^verbatim>\<open>ScriptCache\<close>, so a reload on navigation attaches a second element for its key and
  removes none. And the empty key is never taken as loaded, so every call for it attaches
  an element.
\<close>

theorem one_live_element_counterexample:
  "scriptKey tickerProps = ''ticker'' \<and>
   docBody (runSteps initState
     [Call envProducts tickerProps, NextCallback, Call envCart tickerProps, NextCallback]) = [0, 1] \<and>
   attachedFor (runSteps initState
     [Call envProducts tickerProps, NextCallback, Call envCart tickerProps, NextCallback]) ''ticker'' = [0, 1] \<and>
   scriptKey noIdProps = [] \<and>
   attachedFor (runSteps initState
     [Call envProducts noIdProps, NextCallback, Call envProducts noIdProps, NextCallback]) [] = [0, 1]"
  by (simp add: loadScript_eval tickerProps_def noIdProps_def steps_eval)

text \<open>
  The removal of the old element is asked of the target of the reloading call
  (\<^verbatim>\<open>removeScript(target, scriptCache.script)\<close>), not of the parent the element has: a
  script that was put into the head and is reloaded into the body stays in the head. The
  statement below is made for a key whose calls all name one target.
\<close>

lemma reload_into_other_target:
  "scriptKey headProps = scriptKey reloadProps \<and>
   frames (runSteps initState [Call envProducts headProps, NextCallback, Call envCart reloadProps])
     = [RemoveTask (JStr ''body'') 0, AppendTask (JStr ''body'') 1] \<and>
   docHead (runSteps initState
     [Call envProducts headProps, NextCallback, Call envCart reloadProps, NextCallback, NextCallback]) = [0] \<and>
   docBody (runSteps initState
     [Call envProducts headProps, NextCallback, Call envCart reloadProps, NextCallback, NextCallback]) = [1] \<and>
   attachedFor (runSteps initState
     [Call envProducts headProps, NextCallback, Call envCart reloadProps, NextCallback, NextCallback])
     (scriptKey reloadProps) = [0, 1]"
  by (simp add: loadScript_eval headProps_def reloadProps_def steps_eval)

text \<open>
  C1. Take any sequence of \<^verbatim>\<open>loadScript\<close> calls and animation-frame callbacks from the
  initial state, the callbacks run oldest first, one at a time, anywhere between the
  calls. For a key whose calls all carry a source URL and all name the same target, and
  for a non-empty key whose calls never set \<^verbatim>\<open>reload\<close>: at every moment of the run at most
  one element created for the key is a child of \<^verbatim>\<open>document.head\<close> or \<^verbatim>\<open>document.body\<close>.
\<close>

theorem one_live_element:
  assumes "(\<forall>e props. Call e props \<in> set steps \<longrightarrow> scriptKey props = k \<longrightarrow>
              truthy (getProp props ''src'') \<and>
              withDefault (getProp props ''target'') (JStr ''body'') = T) \<or>
           (k \<noteq> [] \<and>
            (\<forall>e props. Call e props \<in> set steps \<longrightarrow> scriptKey props = k \<longrightarrow>
               \<not> truthy (withDefault (getProp props ''reload'') (JBool False))))"
  shows "\<forall>n. length (attachedFor (runSteps initState (take n steps)) k) \<le> 1"
proof
  fix n
  let ?s = "runSteps initState (take n steps)"
  have wf: "wellFormed ?s"
    using wellFormed_initState by (rule wellFormed_runSteps)
  have sub: "Call e props \<in> set steps" if "Call e props \<in> set (take n steps)" for e props
    using that by (rule in_set_takeD)
  from assms show "length (attachedFor ?s k) \<le> 1"
  proof
    assume a: "\<forall>e props. Call e props \<in> set steps \<longrightarrow> scriptKey props = k \<longrightarrow>
              truthy (getProp props ''src'') \<and>
              withDefault (getProp props ''target'') (JStr ''body'') = T"
    have "srcInv ?s k T"
      using wellFormed_initState srcInv_initState
    proof (rule srcInv_runSteps)
      show "\<forall>e props. Call e props \<in> set (take n steps) \<longrightarrow> scriptKey props = k \<longrightarrow>
              truthy (getProp props ''src'') \<and>
              withDefault (getProp props ''target'') (JStr ''body'') = T"
        using a sub by blast
    qed
    then have "keyDocs T (keyElements ?s k) (docsOf ?s)"
      unfolding srcInv_def using allAlong_now by blast
    then have "\<forall>x \<in> attachedSet (docsOf ?s). \<forall>y \<in> attachedSet (docsOf ?s).
                  x \<in> keyElements ?s k \<longrightarrow> y \<in> keyElements ?s k \<longrightarrow> x = y"
      by (simp add: keyDocs_def)
    with wf show ?thesis by (rule attachedFor_at_most_one)
  next
    assume b: "k \<noteq> [] \<and>
            (\<forall>e props. Call e props \<in> set steps \<longrightarrow> scriptKey props = k \<longrightarrow>
               \<not> truthy (withDefault (getProp props ''reload'') (JBool False)))"
    then have k: "k \<noteq> []" by simp
    have "onceInv ?s k"
      using wellFormed_initState onceInv_initState k
    proof (rule onceInv_runSteps)
      show "\<forall>e props. Call e props \<in> set (take n steps) \<longrightarrow> scriptKey props = k \<longrightarrow>
               \<not> truthy (withDefault (getProp props ''reload'') (JBool False))"
        using b sub by blast
    qed
    then have "\<forall>x \<in> attachedSet (docsOf ?s). \<forall>y \<in> attachedSet (docsOf ?s).
                  x \<in> keyElements ?s k \<longrightarrow> y \<in> keyElements ?s k \<longrightarrow> x = y"
      unfolding onceInv_def by blast
    with wf show ?thesis by (rule attachedFor_at_most_one)
  qed
qed

theorem one_live_element_witness:
  "scriptKey reloadProps = ''a/x.js'' \<and>
   docBody (runSteps initState
     [Call envProducts reloadProps, NextCallback, Call envProducts inlineProps, Call envCart reloadProps,
      NextCallback, NextCallback, NextCallback]) = [1, 2] \<and>
   attachedFor (runSteps initState
     [Call envProducts reloadProps, NextCallback, Call envProducts inlineProps, Call envCart reloadProps,
      NextCallback, NextCallback, NextCallback]) ''a/x.js'' = [2] \<and>
   attachedFor (runSteps initState
     [Call envProducts reloadProps, NextCallback, Call envProducts inlineProps, Call envCart reloadProps,
      NextCallback]) ''a/x.js'' = [0] \<and>
   length (attachedFor (runSteps initState
     [Call envProducts reloadProps, NextCallback, Call envProducts inlineProps, Call envCart reloadProps,
      NextCallback, NextCallback, NextCallback]) ''a/x.js'') \<le> 1 \<and>
   length (attachedFor (runSteps initState
     [Call envProducts reloadProps, NextCallback, Call envProducts inlineProps, Call envCart reloadProps,
      NextCallback, NextCallback]) ''a/x.js'') \<le> 1"
proof -
  let ?steps = "[Call envProducts reloadProps, NextCallback, Call envProducts inlineProps,
      Call envCart reloadProps, NextCallback, NextCallback, NextCallback]"
  have h: "(\<forall>e props. Call e props \<in> set ?steps \<longrightarrow> scriptKey props = ''a/x.js'' \<longrightarrow>
              truthy (getProp props ''src'') \<and>
              withDefault (getProp props ''target'') (JStr ''body'') = JStr ''body'') \<or>
           (''a/x.js'' \<noteq> [] \<and>
            (\<forall>e props. Call e props \<in> set ?steps \<longrightarrow> scriptKey props = ''a/x.js'' \<longrightarrow>
               \<not> truthy (withDefault (getProp props ''reload'') (JBool False))))"
    by (auto simp: scriptKey_def getProp_def withDefault_def reloadProps_def inlineProps_def)
  note t = one_live_element [OF h]
  have t7: "length (attachedFor (runSteps initState ?steps) ''a/x.js'') \<le> 1"
    using t [THEN spec, of 7] by simp
  have t6: "length (attachedFor (runSteps initState
     [Call envProducts reloadProps, NextCallback, Call envProducts inlineProps, Call envCart reloadProps,
      NextCallback, NextCallback]) ''a/x.js'') \<le> 1"
    using t [THEN spec, of 6] by simp
  have k: "scriptKey reloadProps = ''a/x.js''"
    by (simp add: scriptKey_def getProp_def reloadProps_def)
  have d: "docBody (runSteps initState ?steps) = [1, 2]"
    by (simp add: loadScript_eval reloadProps_def inlineProps_def steps_eval)
  have a7: "attachedFor (runSteps initState ?steps) ''a/x.js'' = [2]"
    by (simp add: loadScript_eval reloadProps_def inlineProps_def steps_eval)
  have a5: "attachedFor (runSteps initState
     [Call envProducts reloadProps, NextCallback, Call envProducts inlineProps, Call envCart reloadProps,
      NextCallback]) ''a/x.js'' = [0]"
    by (simp add: loadScript_eval reloadProps_def inlineProps_def steps_eval)
  from t7 t6 k d a7 a5 show ?thesis by blast
qed

section \<open>Repeated calls\<close>

text \<open>
  C2, as stated for any key, fails for the empty key: \<^verbatim>\<open>hasLoaded\<close> is
  \<^verbatim>\<open>key && LoadCache.has(key)\<close>, so a descriptor whose \<^verbatim>\<open>id\<close> is empty and which has no
  \<^verbatim>\<open>src\<close> is never taken as loaded. Called twice on the same page, without \<^verbatim>\<open>reload\<close>, the
  second call returns \<^verbatim>\<open>"inline script"\<close> and two elements are created and queued for
  append.
\<close>

theorem second_call_already_loaded_counterexample:
  "scriptKey noIdProps = [] \<and>
   getProp noIdProps ''reload'' = JUndefined \<and>
   fst (loadScript envProducts noIdProps (snd (loadScript envProducts noIdProps initState))) = Resolved inlineScript \<and>
   fst (loadScript envProducts noIdProps (snd (loadScript envProducts noIdProps initState))) \<noteq> Resolved alreadyLoaded \<and>
   length (elements (runCalls initState [(envProducts, noIdProps), (envProducts, noIdProps)])) = 2 \<and>
   frames (runCalls initState [(envProducts, noIdProps), (envProducts, noIdProps)])
     = [AppendTask (JStr ''body'') 0, AppendTask (JStr ''body'') 1]"
  by (simp add: loadScript_eval noIdProps_def)

text \<open>
  C2. For a non-empty key that is in neither \<^verbatim>\<open>LoadCache\<close> nor \<^verbatim>\<open>ScriptCache\<close>: calling
  \<^verbatim>\<open>loadScript\<close> twice with the same descriptor, with \<^verbatim>\<open>reload\<close> false or the path
  unchanged between the calls, returns the resolved result
  \<^verbatim>\<open>{status: true, event: "already loaded"}\<close> on the second call, and the two calls together
  create exactly one element and queue exactly one append.
\<close>

theorem second_call_already_loaded:
  assumes key: "scriptKey props \<noteq> []"
      and fresh: "scriptKey props \<notin> LoadCache s" "ScriptCache s (scriptKey props) = None"
      and same: "\<not> truthy (withDefault (getProp props ''reload'') (JBool False)) \<or> pathname e2 = pathname e1"
  shows "fst (loadScript e2 props (snd (loadScript e1 props s))) = Resolved alreadyLoaded \<and>
         length (elements (runCalls s [(e1, props), (e2, props)])) = Suc (length (elements s)) \<and>
         frames (runCalls s [(e1, props), (e2, props)])
           = frames s @ [AppendTask (withDefault (getProp props ''target'') (JStr ''body'')) (length (elements s))]"
proof -
  let ?s1 = "snd (loadScript e1 props s)"
  have one: "elements ?s1 = elements s @ [newElement props s]"
    "frames ?s1 = frames s @ [AppendTask (withDefault (getProp props ''target'') (JStr ''body'')) (length (elements s))]"
    by (simp_all add: fresh_first_call [OF fresh] newElement_def)
  have two: "loadScript e2 props ?s1 = (Resolved alreadyLoaded, trackPath e2 (scriptKey props) ?s1)"
    by (rule second_call [OF key fresh same])
  show ?thesis by (simp add: two one)
qed

theorem second_call_already_loaded_witness:
  "scriptKey cdnProps \<noteq> [] \<and>
   scriptKey cdnProps \<notin> LoadCache initState \<and>
   ScriptCache initState (scriptKey cdnProps) = None \<and>
   fst (loadScript envCart cdnProps (snd (loadScript envProducts cdnProps initState))) = Resolved alreadyLoaded \<and>
   length (elements (runCalls initState [(envProducts, cdnProps), (envCart, cdnProps)])) = 1 \<and>
   frames (runCalls initState [(envProducts, cdnProps), (envCart, cdnProps)]) = [AppendTask (JStr ''head'') 0]"
proof -
  have k: "scriptKey cdnProps \<noteq> []"
    by (simp add: scriptKey_def getProp_def cdnProps_def)
  have f: "scriptKey cdnProps \<notin> LoadCache initState" "ScriptCache initState (scriptKey cdnProps) = None"
    by (simp_all add: initState_def)
  have r: "\<not> truthy (withDefault (getProp cdnProps ''reload'') (JBool False)) \<or> pathname envCart = pathname envProducts"
    by (simp add: getProp_def cdnProps_def withDefault_def)
  have t: "withDefault (getProp cdnProps ''target'') (JStr ''body'') = JStr ''head''"
    by (simp add: getProp_def cdnProps_def withDefault_def)
  from second_call_already_loaded [OF k f r] k f show ?thesis
    by (simp add: t initState_def)
qed

section \<open>Calls while a load is in flight\<close>

text \<open>
  C3, as stated, fails: after a first call with a source URL, \<^verbatim>\<open>LoadCache\<close> has the key, so
  a second call before the load settles leaves through the \<^verbatim>\<open>hasLoaded\<close> check and returns
  the resolved \<^verbatim>\<open>"already loaded"\<close> result; its result does not follow the pending promise
  of the first call. Nor is the result of any call the cached promise object itself:
  \<^verbatim>\<open>loadScript\<close> is an \<^verbatim>\<open>async\<close> function, and what a call returns is a promise of its own.
\<close>

theorem in_flight_promise_counterexample:
  "truthy (getProp plainProps ''src'') \<and>
   fst (loadScript envProducts plainProps initState) = Follows 0 \<and>
   settled (promises (snd (loadScript envProducts plainProps initState)) ! 0) = Pending \<and>
   ScriptCache (snd (loadScript envProducts plainProps initState)) (scriptKey plainProps)
     = Some \<lparr>promise = Some 0, script = Some 0\<rparr> \<and>
   fst (loadScript envProducts plainProps (snd (loadScript envProducts plainProps initState)))
     = Resolved \<lparr>status = True, event = EvStr ''already loaded''\<rparr> \<and>
   fst (loadScript envProducts plainProps (snd (loadScript envProducts plainProps initState)))
     \<noteq> Follows 0"
  by (simp add: loadScript_eval plainProps_def)

text \<open>
  C3. For a descriptor with a source URL and a non-empty key that is in neither cache: the
  result of the first call follows a new pending promise, which the call stores in
  \<^verbatim>\<open>ScriptCache\<close> together with the new element; a second call before the load settles,
  with \<^verbatim>\<open>reload\<close> false or the path unchanged, returns the resolved result
  \<^verbatim>\<open>{status: true, event: "already loaded"}\<close> and creates no element, no promise and no frame
  callback. In any state in which \<^verbatim>\<open>ScriptCache\<close> holds an entry for the key with an
  existing promise, the result of a call follows that promise exactly when the call gets
  to the entry: the key is not taken as loaded, or a reload on navigation is due and the
  entry holds no element. Such a call creates no element, no promise and no frame
  callback.
\<close>

theorem in_flight_promise:
  assumes src: "truthy (getProp props ''src'')"
      and key: "scriptKey props \<noteq> []"
      and fresh: "scriptKey props \<notin> LoadCache s" "ScriptCache s (scriptKey props) = None"
      and same: "\<not> truthy (withDefault (getProp props ''reload'') (JBool False)) \<or> pathname e2 = pathname e1"
      and s1: "s1 = snd (loadScript e1 props s)"
      and s2: "s2 = snd (loadScript e2 props s1)"
      and p: "p = length (promises s)"
  shows "fst (loadScript e1 props s) = Follows p \<and>
         settled (promises s1 ! p) = Pending \<and>
         ScriptCache s1 (scriptKey props) = Some \<lparr>promise = Some p, script = Some (length (elements s))\<rparr> \<and>
         fst (loadScript e2 props s1) = Resolved \<lparr>status = True, event = EvStr ''already loaded''\<rparr> \<and>
         elements s2 = elements s1 \<and> promises s2 = promises s1 \<and> frames s2 = frames s1 \<and>
         (\<forall>t c q e3. ScriptCache t (scriptKey props) = Some c \<and> promise c = Some q \<and> q < length (promises t) \<longrightarrow>
            (fst (loadScript e3 props t) = Follows q \<longleftrightarrow>
               \<not> hasLoaded (scriptKey props) t \<or> (reloadOnNavigation e3 props t \<and> script c = None)) \<and>
            (fst (loadScript e3 props t) = Follows q \<longrightarrow>
               elements (snd (loadScript e3 props t)) = elements t \<and>
               promises (snd (loadScript e3 props t)) = promises t \<and>
               frames (snd (loadScript e3 props t)) = frames t))"
proof -
  note first = fresh_first_call [OF fresh, of e1]
  have second: "loadScript e2 props s1 = (Resolved alreadyLoaded, trackPath e2 (scriptKey props) s1)"
    unfolding s1 by (rule second_call [OF key fresh same])
  have one: "fst (loadScript e1 props s) = Follows p"
    "settled (promises s1 ! p) = Pending"
    "ScriptCache s1 (scriptKey props) = Some \<lparr>promise = Some p, script = Some (length (elements s))\<rparr>"
    using src by (simp_all add: s1 first p)
  have two: "fst (loadScript e2 props s1) = Resolved \<lparr>status = True, event = EvStr ''already loaded''\<rparr>"
    "elements s2 = elements s1" "promises s2 = promises s1" "frames s2 = frames s1"
    by (simp_all add: s2 second alreadyLoaded_def)
  have handed: "(fst (loadScript e3 props t) = Follows q \<longleftrightarrow>
               \<not> hasLoaded (scriptKey props) t \<or> (reloadOnNavigation e3 props t \<and> script c = None)) \<and>
            (fst (loadScript e3 props t) = Follows q \<longrightarrow>
               elements (snd (loadScript e3 props t)) = elements t \<and>
               promises (snd (loadScript e3 props t)) = promises t \<and>
               frames (snd (loadScript e3 props t)) = frames t)"
    if c: "ScriptCache t (scriptKey props) = Some c" and q: "promise c = Some q"
      and ex: "q < length (promises t)" for t c q e3
  proof (cases "\<not> hasLoaded (scriptKey props) t \<or> (reloadOnNavigation e3 props t \<and> script c = None)")
    case True
    from entry_reached [OF c True] q True show ?thesis
      by (simp add: inFlight_def)
  next
    case False
    then have l: "hasLoaded (scriptKey props) t" by blast
    show ?thesis
    proof (cases "reloadOnNavigation e3 props t")
      case no: False
      with l False show ?thesis
        by (simp add: loadScript_already)
    next
      case yes: True
      with False obtain old where old: "script c = Some old" by auto
      from entry_purged(1) [OF c old l yes refl refl]
      have "fst (loadScript e3 props t) = Follows (length (promises t))"
        using src by simp
      with ex False show ?thesis by simp
    qed
  qed
  from one two handed show ?thesis by blast
qed

theorem in_flight_promise_witness:
  "truthy (getProp plainProps ''src'') \<and>
   scriptKey plainProps \<noteq> [] \<and>
   scriptKey plainProps \<notin> LoadCache initState \<and>
   ScriptCache initState (scriptKey plainProps) = None \<and>
   fst (loadScript envProducts plainProps initState) = Follows 0 \<and>
   fst (loadScript envProducts plainProps (snd (loadScript envProducts plainProps initState)))
     = Resolved \<lparr>status = True, event = EvStr ''already loaded''\<rparr> \<and>
   ScriptCache orphanState (scriptKey plainProps) = Some \<lparr>promise = Some 0, script = None\<rparr> \<and>
   hasLoaded (scriptKey plainProps) orphanState \<and>
   reloadOnNavigation envCart reloadProps orphanState \<and>
   fst (loadScript envCart reloadProps orphanState) = Follows 0 \<and>
   elements (snd (loadScript envCart reloadProps orphanState)) = elements orphanState \<and>
   fst (loadScript envProducts reloadProps orphanState) \<noteq> Follows 0"
proof -
  have src: "truthy (getProp plainProps ''src'')" "truthy (getProp reloadProps ''src'')"
    and k: "scriptKey plainProps \<noteq> []" "scriptKey reloadProps \<noteq> []"
    and kk: "scriptKey reloadProps = scriptKey plainProps"
    by (simp_all add: scriptKey_def getProp_def plainProps_def reloadProps_def)
  have f: "scriptKey plainProps \<notin> LoadCache initState" "ScriptCache initState (scriptKey plainProps) = None"
    "scriptKey reloadProps \<notin> LoadCache initState" "ScriptCache initState (scriptKey reloadProps) = None"
    by (simp_all add: initState_def)
  have r: "\<not> truthy (withDefault (getProp plainProps ''reload'') (JBool False)) \<or> pathname envProducts = pathname envProducts"
    "\<not> truthy (withDefault (getProp reloadProps ''reload'') (JBool False)) \<or> pathname envProducts = pathname envProducts"
    by simp_all
  have i: "length (promises initState) = 0"
    by (simp add: initState_def)
  have o: "ScriptCache orphanState (scriptKey reloadProps) = Some \<lparr>promise = Some 0, script = None\<rparr>"
    "0 < length (promises orphanState)"
    "hasLoaded (scriptKey reloadProps) orphanState"
    "reloadOnNavigation envCart reloadProps orphanState"
    "\<not> reloadOnNavigation envProducts reloadProps orphanState"
    by (simp_all add: orphanState_def loadScript_eval plainProps_def reloadProps_def)
  note t = in_flight_promise [OF src(1) k(1) f(1,2) r(1) refl refl refl]
  note u = in_flight_promise [OF src(2) k(2) f(3,4) r(2) refl refl refl,
      THEN conjunct2, THEN conjunct2, THEN conjunct2, THEN conjunct2, THEN conjunct2, THEN conjunct2,
      THEN conjunct2, THEN spec, THEN spec, THEN spec, THEN spec, THEN mp, OF conjI, OF o(1) conjI, OF _ o(2)]
  have pq: "promise \<lparr>promise = Some 0, script = None\<rparr> = Some 0"
    by simp
  note u1 = u [OF pq, of envCart]
  note u2 = u [OF pq, of envProducts]
  from t [THEN conjunct1] t [THEN conjunct2, THEN conjunct2, THEN conjunct2, THEN conjunct1]
    u1 u2 src(1) k(1) f(1,2) o
  show ?thesis
    by (simp add: i kk)
qed

section \<open>Reload on navigation\<close>

text \<open>
  C4, as stated, fails for \<^verbatim>\<open>PrevPathCache\<close>: the reload block deletes the key from
  \<^verbatim>\<open>LoadCache\<close>, \<^verbatim>\<open>ScriptCache\<close> and \<^verbatim>\<open>StartTimeCache\<close> only, and \<^verbatim>\<open>PrevPathCache\<close> has
  just been set to the current path.
\<close>

theorem reload_purge_counterexample:
  "hasLoaded (scriptKey reloadProps) (snd (loadScript envProducts reloadProps initState)) \<and>
   reloadOnNavigation envCart reloadProps (snd (loadScript envProducts reloadProps initState)) \<and>
   ScriptCache (snd (loadScript envProducts reloadProps initState)) (scriptKey reloadProps)
     = Some \<lparr>promise = Some 0, script = Some 0\<rparr> \<and>
   PrevPathCache
     (reloadPurge (JStr ''body'') (scriptKey reloadProps)
        (trackPath envCart (scriptKey reloadProps) (snd (loadScript envProducts reloadProps initState))))
     (scriptKey reloadProps) = Some ''/cart'' \<and>
   PrevPathCache (runCalls initState [(envProducts, reloadProps), (envCart, reloadProps)])
     (scriptKey reloadProps) = Some ''/cart''"
  by (simp add: loadScript_eval reloadProps_def)

text \<open>
  C4. When a loaded key is called again with \<^verbatim>\<open>reload\<close> true and a changed path, and
  \<^verbatim>\<open>ScriptCache\<close> tracks an element for it: the key is deleted from \<^verbatim>\<open>LoadCache\<close>,
  \<^verbatim>\<open>ScriptCache\<close> and \<^verbatim>\<open>StartTimeCache\<close> together, while \<^verbatim>\<open>PrevPathCache\<close> keeps the key,
  now with the current path. The removal of the old element is queued for the next
  animation frame, before the append of the new one; the call itself leaves the document
  as it is, and the frame takes the old element out of the target.
\<close>

theorem reload_purge:
  assumes loaded: "hasLoaded (scriptKey props) s"
      and reload: "reloadOnNavigation e props s"
      and tracked: "ScriptCache s (scriptKey props) = Some c" "script c = Some old"
      and exists: "old < length (elements s)"
      and target: "target = withDefault (getProp props ''target'') (JStr ''body'')"
      and purged: "purged = reloadPurge target (scriptKey props) (trackPath e (scriptKey props) s)"
      and s': "s' = snd (loadScript e props s)"
  shows "loadScript e props s = createScript props (scriptKey props) (startTimer e (scriptKey props) purged) \<and>
         scriptKey props \<notin> LoadCache purged \<and>
         ScriptCache purged (scriptKey props) = None \<and>
         StartTimeCache purged (scriptKey props) = None \<and>
         PrevPathCache purged (scriptKey props) = Some (pathname e) \<and>
         frames purged = frames s @ [RemoveTask target old] \<and>
         docHead purged = docHead s \<and> docBody purged = docBody s \<and>
         frames s' = frames s @ [RemoveTask target old, AppendTask target (length (elements s))] \<and>
         docHead s' = docHead s \<and> docBody s' = docBody s \<and>
         PrevPathCache s' (scriptKey props) = Some (pathname e) \<and>
         (target = JStr ''body'' \<longrightarrow> old \<notin> set (docBody (runFrame s'))) \<and>
         (target = JStr ''head'' \<longrightarrow> old \<notin> set (docHead (runFrame s')))"
proof -
  have p: "purged = (trackPath e (scriptKey props) s)
      \<lparr>LoadCache := LoadCache s - {scriptKey props},
        ScriptCache := (ScriptCache s)(scriptKey props := None),
        StartTimeCache := (StartTimeCache s)(scriptKey props := None),
        frames := frames s @ [RemoveTask target old]\<rparr>"
    using tracked by (simp add: purged reloadPurge_def)
  have run: "loadScript e props s = createScript props (scriptKey props) (startTimer e (scriptKey props) purged)"
    using loaded reload unfolding loadScript_def Let_def purged target by (simp add: p [unfolded purged target])
  have fr: "frames s' = frames s @ [RemoveTask target old, AppendTask target (length (elements s))]"
    by (simp add: s' run) (simp add: p target)
  have doc: "docHead s' = docHead s" "docBody s' = docBody s" "PrevPathCache s' (scriptKey props) = Some (pathname e)"
    by (simp_all add: s' run) (simp_all add: p)
  from exists have "length (elements s) \<noteq> old" by simp
  with fr have gone: "(target = JStr ''body'' \<longrightarrow> old \<notin> set (docBody (runFrame s'))) \<and>
         (target = JStr ''head'' \<longrightarrow> old \<notin> set (docHead (runFrame s')))"
    by (intro runFrame_removed [of s' "frames s" target old "length (elements s)"]) simp_all
  show ?thesis
    using run fr doc gone by (simp add: p)
qed

theorem reload_purge_witness:
  "hasLoaded (scriptKey reloadProps) attachedState \<and>
   reloadOnNavigation envCart reloadProps attachedState \<and>
   ScriptCache attachedState (scriptKey reloadProps) = Some \<lparr>promise = Some 0, script = Some 0\<rparr> \<and>
   docBody attachedState = [0] \<and>
   docBody (snd (loadScript envCart reloadProps attachedState)) = [0] \<and>
   frames (snd (loadScript envCart reloadProps attachedState))
     = [RemoveTask (JStr ''body'') 0, AppendTask (JStr ''body'') 1] \<and>
   PrevPathCache (snd (loadScript envCart reloadProps attachedState)) (scriptKey reloadProps) = Some ''/cart'' \<and>
   0 \<notin> set (docBody (runFrame (snd (loadScript envCart reloadProps attachedState))))"
proof -
  have t: "JStr ''body'' = withDefault (getProp reloadProps ''target'') (JStr ''body'')"
    by (simp add: getProp_def reloadProps_def withDefault_def)
  have c: "script \<lparr>promise = Some 0, script = Some 0\<rparr> = Some 0"
    by simp
  have ex: "0 < length (elements attachedState)"
    by (simp add: attachedState_eval)
  from reload_purge [OF attachedState_eval(6) attachedState_eval(7) attachedState_eval(5) c ex t refl refl,
      THEN conjunct2]
  show ?thesis
    by (simp add: attachedState_eval) (simp add: envCart_def)
qed

section \<open>Inline scripts\<close>

text \<open>
  C5, as stated, fails for a descriptor that spells the field with a capital letter:
  \<^verbatim>\<open>Async\<close> is not the \<^verbatim>\<open>async\<close> of the blocklist, so the field is copied, and
  \<^verbatim>\<open>setAttribute\<close> lower-cases its name.
\<close>

theorem inline_script_attributes_counterexample:
  "\<not> truthy (getProp capsProps ''src'') \<and>
   length (elements (snd (loadScript envProducts capsProps initState))) = Suc (length (elements initState)) \<and>
   getAttribute (attributes (last (elements (snd (loadScript envProducts capsProps initState))))) ''async''
     = Some (JBool True) \<and>
   attributes (last (elements (snd (loadScript envProducts capsProps initState))))
     = [(''id'', JStr ''banner''), (''async'', JBool True), (''data-load'', JStr ''inline'')]"
  by (simp add: loadScript_eval capsProps_def)

text \<open>
  C5. A descriptor without a source URL that creates a new element: the call does what it
  does for the descriptor without its \<^verbatim>\<open>async\<close> and \<^verbatim>\<open>defer\<close> fields (the same result and
  the same state, so the same element); when no field of the descriptor is a differently
  cased spelling of \<^verbatim>\<open>async\<close> or \<^verbatim>\<open>defer\<close>, the element has neither attribute; the element
  carries \<^verbatim>\<open>data-load="inline"\<close>; the call returns the resolved result
  \<^verbatim>\<open>{status: true, event: "inline script"}\<close>; and \<^verbatim>\<open>ScriptCache\<close> holds nothing for the key
  after the call.
\<close>

theorem inline_script_attributes:
  assumes nosrc: "\<not> truthy (getProp props ''src'')"
      and created: "length (elements (snd (loadScript e props s))) = Suc (length (elements s))"
      and el: "el = last (elements (snd (loadScript e props s)))"
  shows "loadScript e props s
           = loadScript e (filter (\<lambda>(k, v). k \<noteq> ''async'' \<and> k \<noteq> ''defer'') props) s \<and>
         ((\<forall>k \<in> fst ` set props. toLowerCase k \<in> {''async'', ''defer''} \<longrightarrow> k \<in> {''async'', ''defer''})
            \<longrightarrow> getAttribute (attributes el) ''async'' = None \<and>
                getAttribute (attributes el) ''defer'' = None) \<and>
         getAttribute (attributes el) ''data-load'' = Some (JStr ''inline'') \<and>
         fst (loadScript e props s) = Resolved \<lparr>status = True, event = EvStr ''inline script''\<rparr> \<and>
         ScriptCache (snd (loadScript e props s)) (scriptKey props) = None"
proof -
  let ?ign = "ignoreProps s @ [''async'', ''defer'']"
  have same: "loadScript e props s
           = loadScript e (filter (\<lambda>(k, v). k \<noteq> ''async'' \<and> k \<noteq> ''defer'') props) s"
    using nosrc loadScript_dropAsyncDefer_inline [of props e s] by (simp add: dropAsyncDefer_def)
  have e: "el = newElement props s"
    unfolding el using created by (rule created_last)
  have at: "attributes el = elementAttributes ?ign props"
    using nosrc by (simp add: e newElement_def)
  have none: "getAttribute (attributes el) ''async'' = None \<and> getAttribute (attributes el) ''defer'' = None"
    if "\<forall>k \<in> fst ` set props. toLowerCase k \<in> {''async'', ''defer''} \<longrightarrow> k \<in> {''async'', ''defer''}"
    unfolding at using that by (simp add: elementAttributes_no_async)
  have tag: "getAttribute (attributes el) ''data-load'' = Some (JStr ''inline'')"
    using nosrc by (simp add: at elementAttributes_def Let_def getAttribute_setAttribute)
  have cr: "loadScript e props s = createScript props (scriptKey props) (prepared e props s)"
    and nocache: "ScriptCache (prepared e props s) (scriptKey props) = None"
    using created by (simp_all add: loadScript_created)
  have ret: "fst (loadScript e props s) = Resolved \<lparr>status = True, event = EvStr ''inline script''\<rparr>"
    using nosrc by (simp add: cr inlineScript_def)
  have cache: "ScriptCache (snd (loadScript e props s)) (scriptKey props) = None"
    using nosrc nocache by (simp add: cr)
  from same none tag ret cache show ?thesis by blast
qed

theorem inline_script_attributes_witness:
  "\<not> truthy (getProp inlineProps ''src'') \<and>
   length (elements (snd (loadScript envProducts inlineProps initState))) = Suc (length (elements initState)) \<and>
   loadScript envProducts inlineProps initState
     = loadScript envProducts [(''id'', JStr ''analytics''), (''children'', JStr ''window.dataLayer = []'')] initState \<and>
   getAttribute (attributes (last (elements (snd (loadScript envProducts inlineProps initState))))) ''async'' = None \<and>
   getAttribute (attributes (last (elements (snd (loadScript envProducts inlineProps initState))))) ''defer'' = None \<and>
   getAttribute (attributes (last (elements (snd (loadScript envProducts inlineProps initState))))) ''data-load''
     = Some (JStr ''inline'') \<and>
   fst (loadScript envProducts inlineProps initState) = Resolved \<lparr>status = True, event = EvStr ''inline script''\<rparr> \<and>
   ScriptCache (snd (loadScript envProducts inlineProps initState)) (scriptKey inlineProps) = None"
proof -
  have h1: "\<not> truthy (getProp inlineProps ''src'')"
    by (simp add: getProp_def inlineProps_def)
  have h2: "length (elements (snd (loadScript envProducts inlineProps initState))) = Suc (length (elements initState))"
    by (simp add: loadScript_eval inlineProps_def)
  have h3: "\<forall>k \<in> fst ` set inlineProps. toLowerCase k \<in> {''async'', ''defer''} \<longrightarrow> k \<in> {''async'', ''defer''}"
    by (simp add: inlineProps_def toLowerCase_def lowerChar_def upperLower_def)
  have d: "filter (\<lambda>(k, v). k \<noteq> ''async'' \<and> k \<noteq> ''defer'') inlineProps
           = [(''id'', JStr ''analytics''), (''children'', JStr ''window.dataLayer = []'')]"
    by (simp add: inlineProps_def)
  note t = inline_script_attributes [OF h1 h2 refl]
  from t [THEN conjunct1] t [THEN conjunct2, THEN conjunct1, THEN mp, OF h3]
    t [THEN conjunct2, THEN conjunct2] h1 h2 d
  show ?thesis by simp
qed

section \<open>Load strategy attributes\<close>

text \<open>
  C6. A descriptor with a source URL that creates a new element: the element carries
  \<^verbatim>\<open>data-load\<close> with the requested load strategy (\<^verbatim>\<open>afterHydration\<close> when none is given).
  A descriptor whose load strategy is \<^verbatim>\<open>inWorker\<close>: the element's \<^verbatim>\<open>type\<close> is
  \<^verbatim>\<open>text/partytown\<close>, also when the descriptor has a \<^verbatim>\<open>type\<close> of its own, since it is set
  after the spread.
\<close>

theorem strategy_attributes:
  assumes created: "length (elements (snd (loadScript e props s))) = Suc (length (elements s))"
  shows "(truthy (getProp props ''src'') \<longrightarrow>
            getAttribute (attributes (last (elements (snd (loadScript e props s))))) ''data-load''
              = Some (withDefault (getProp props ''load'') (JStr ''afterHydration''))) \<and>
         (getProp props ''load'' = JStr ''inWorker'' \<longrightarrow>
            getAttribute (attributes (last (elements (snd (loadScript e props s))))) ''type''
              = Some (JStr ''text/partytown''))"
proof -
  have el: "last (elements (snd (loadScript e props s))) = newElement props s"
    using created by (rule created_last)
  show ?thesis
    by (simp add: el newElement_def elementAttributes_def Let_def getAttribute_setAttribute withDefault_def)
qed

theorem strategy_attributes_witness:
  "length (elements (snd (loadScript envProducts workerProps initState))) = Suc (length (elements initState)) \<and>
   truthy (getProp workerProps ''src'') \<and>
   getProp workerProps ''load'' = JStr ''inWorker'' \<and>
   getAttribute (attributes (last (elements (snd (loadScript envProducts workerProps initState))))) ''data-load''
     = Some (JStr ''inWorker'') \<and>
   getAttribute (attributes (last (elements (snd (loadScript envProducts workerProps initState))))) ''type''
     = Some (JStr ''text/partytown'')"
proof -
  have h: "length (elements (snd (loadScript envProducts workerProps initState))) = Suc (length (elements initState))"
    by (simp add: loadScript_eval workerProps_def)
  have s: "truthy (getProp workerProps ''src'')" and l: "getProp workerProps ''load'' = JStr ''inWorker''"
    by (simp_all add: getProp_def workerProps_def)
  from strategy_attributes [OF h] h s l show ?thesis by (simp add: withDefault_def)
qed

section \<open>Settlement of the load promise\<close>

text \<open>
  C7, as stated, fails in three ways. There is no \<^verbatim>\<open>try\<close> around the callbacks: when
  \<^verbatim>\<open>onLoad\<close> or \<^verbatim>\<open>onReady\<close> throws, the \<^verbatim>\<open>load\<close> event never gets to \<^verbatim>\<open>resolve\<close> and the
  promise stays pending; when \<^verbatim>\<open>onError\<close> throws, the promise is rejected with what was thrown, not with
  \<^verbatim>\<open>{status: false, event}\<close>. And for a descriptor without a source URL the returned result
  is the resolved \<^verbatim>\<open>"inline script"\<close>, not the promise of the element.
\<close>

theorem load_promise_settles_once_counterexample:
  "length (elements (snd (loadScript envProducts throwingProps initState))) = Suc (length (elements initState)) \<and>
   fst (loadScript envProducts throwingProps initState) = Follows 0 \<and>
   settled (promises (fireLoad False 0 7 (snd (loadScript envProducts throwingProps initState))) ! 0) = Pending \<and>
   calls (fireLoad False 0 7 (snd (loadScript envProducts throwingProps initState)))
     = [Invoke (JThrows 21) (ArgEvent (EvBrowser 7))] \<and>
   settled (promises (fireError False 0 7 (snd (loadScript envProducts throwingProps initState))) ! 0)
     = Rejected (WithThrown (ThrownBy 23)) \<and>
   settled (promises (fireLoad False 0 7
       (snd (loadScript envProducts [(''src'', JStr ''/p.js''), (''onReady'', JThrows 22)] initState))) ! 0)
     = Pending \<and>
   calls (fireLoad False 0 7
       (snd (loadScript envProducts [(''src'', JStr ''/p.js''), (''onReady'', JThrows 22)] initState)))
     = [Invoke (JThrows 22) (ArgEvent (EvBrowser 7))] \<and>
   length (elements (snd (loadScript envProducts inlineProps initState))) = Suc (length (elements initState)) \<and>
   fst (loadScript envProducts inlineProps initState)
     = Resolved \<lparr>status = True, event = EvStr ''inline script''\<rparr> \<and>
   settled (promises (snd (loadScript envProducts inlineProps initState)) ! 0) = Pending"
  by (simp add: loadScript_eval throwingProps_def inlineProps_def fireLoad_def fireError_def
      rejectPromise_def resolvePromise_def invoke_def logScriptPerformance_def)

text \<open>
  C7. For every call that creates an element, the promise of that element is pending
  after the call. With a source URL the returned result follows that promise; without
  one it is the resolved \<^verbatim>\<open>{status: true, event: "inline script"}\<close>. The \<^verbatim>\<open>load\<close> event
  calls \<^verbatim>\<open>onLoad\<close>, then \<^verbatim>\<open>onReady\<close> (each when given), then \<^verbatim>\<open>logScriptPerformance\<close> in
  development mode, and when both callbacks return it resolves the promise to
  \<^verbatim>\<open>{status: true, event}\<close>; when one of them throws, the promise stays pending. The
  \<^verbatim>\<open>error\<close> event calls \<^verbatim>\<open>logScriptPerformance\<close> in development mode, then \<^verbatim>\<open>onError\<close>
  (when given) with \<^verbatim>\<open>{status: false, event}\<close>, and rejects the promise: with
  \<^verbatim>\<open>{status: false, event}\<close> when \<^verbatim>\<open>onError\<close> returns, with what \<^verbatim>\<open>onError\<close> threw
  otherwise. Once the promise has settled through either event, a later \<^verbatim>\<open>load\<close> or
  \<^verbatim>\<open>error\<close> event of the element leaves the promise as it is, and a later \<^verbatim>\<open>error\<close> event
  calls nothing.
\<close>

theorem load_promise_settles_once:
  assumes created: "length (elements (snd (loadScript e props s))) = Suc (length (elements s))"
      and s': "s' = snd (loadScript e props s)"
      and el: "el = length (elements s)"
      and p: "p = length (promises s)"
      and ok: "ok = \<lparr>status = True, event = EvBrowser ev\<rparr>"
      and err: "err = \<lparr>status = False, event = EvBrowser ev\<rparr>"
      and onLoad: "onLoad = getProp props ''onLoad''"
      and onReady: "onReady = withDefault (getProp props ''onReady'') JNull"
      and onError: "onError = withDefault (getProp props ''onError'') JNoop"
      and loaded: "loaded = fireLoad dev el ev s'"
      and failed: "failed = fireError dev el ev s'"
  shows "(truthy (getProp props ''src'') \<longrightarrow> fst (loadScript e props s) = Follows p) \<and>
         (\<not> truthy (getProp props ''src'') \<longrightarrow>
            fst (loadScript e props s) = Resolved \<lparr>status = True, event = EvStr ''inline script''\<rparr>) \<and>
         settled (promises s' ! p) = Pending \<and>
         (returnsNormally onLoad \<and> returnsNormally onReady \<longrightarrow>
            settled (promises loaded ! p) = Fulfilled ok \<and>
            calls loaded = calls s'
              @ (if truthy onLoad then [Invoke onLoad (ArgEvent (EvBrowser ev))] else [])
              @ (if truthy onReady then [Invoke onReady (ArgEvent (EvBrowser ev))] else [])
              @ (if dev then [LogScriptPerformance (scriptKey props) (getProp props ''src'')] else []) \<and>
            loaded = resolvePromise p ok (s'\<lparr>calls := calls loaded\<rparr>) \<and>
            promises (fireLoad dev2 el ev2 loaded) = promises loaded \<and>
            fireError dev2 el ev2 loaded = loaded) \<and>
         (\<not> (returnsNormally onLoad \<and> returnsNormally onReady) \<longrightarrow>
            settled (promises loaded ! p) = Pending) \<and>
         settled (promises failed ! p)
           = Rejected (if truthy onError
                       then (case callThrows onError of Some t \<Rightarrow> WithThrown t | None \<Rightarrow> WithResponse err)
                       else WithResponse err) \<and>
         (returnsNormally onError \<longrightarrow> settled (promises failed ! p) = Rejected (WithResponse err)) \<and>
         calls failed = calls s'
           @ (if dev then [LogScriptPerformance (scriptKey props) (getProp props ''src'')] else [])
           @ (if truthy onError then [Invoke onError (ArgResponse err)] else []) \<and>
         promises (fireLoad dev2 el ev2 failed) = promises failed \<and>
         fireError dev2 el ev2 failed = failed"
proof -
  have cr: "loadScript e props s = createScript props (scriptKey props) (prepared e props s)"
    using created by (simp add: loadScript_created)
  have els: "elements s' = elements s @ [newElement props s]"
    unfolding s' using created by (rule created_last)
  have prs: "promises s' = promises s @
      [\<lparr>settled = Pending, c_key = scriptKey props, c_src = getProp props ''src'', c_onError = onError\<rparr>]"
    unfolding s' by (simp add: cr onError)
  have ret: "truthy (getProp props ''src'') \<longrightarrow> fst (loadScript e props s) = Follows p"
    "\<not> truthy (getProp props ''src'') \<longrightarrow>
       fst (loadScript e props s) = Resolved \<lparr>status = True, event = EvStr ''inline script''\<rparr>"
    by (simp_all add: cr p inlineScript_def)
  have x: "elements s' ! el = newElement props s" "el < length (elements s')"
    by (simp_all add: els el)
  have h: "h_promise (elements s' ! el) = p" "h_onLoad (elements s' ! el) = onLoad"
    "h_onReady (elements s' ! el) = onReady" "h_key (elements s' ! el) = scriptKey props"
    "h_src (elements s' ! el) = getProp props ''src''"
    by (simp_all add: x(1) newElement_def p onLoad onReady)
  have pend: "settled (promises s' ! p) = Pending" "p < length (promises s')"
    by (simp_all add: prs p)
  have ok_case: "settled (promises loaded ! p) = Fulfilled ok \<and>
            calls loaded = calls s'
              @ (if truthy onLoad then [Invoke onLoad (ArgEvent (EvBrowser ev))] else [])
              @ (if truthy onReady then [Invoke onReady (ArgEvent (EvBrowser ev))] else [])
              @ (if dev then [LogScriptPerformance (scriptKey props) (getProp props ''src'')] else []) \<and>
            loaded = resolvePromise p ok (s'\<lparr>calls := calls loaded\<rparr>) \<and>
            promises (fireLoad dev2 el ev2 loaded) = promises loaded \<and>
            fireError dev2 el ev2 loaded = loaded"
    if r: "returnsNormally onLoad \<and> returnsNormally onReady"
  proof -
    from r have "returnsNormally (h_onLoad (elements s' ! el))" "returnsNormally (h_onReady (elements s' ! el))"
      by (simp_all add: h)
    from fireLoad_returns [OF x(2) this, of dev ev]
    have fl: "loaded = resolvePromise p ok
             (s'\<lparr>calls := calls s'
                @ (if truthy onLoad then [Invoke onLoad (ArgEvent (EvBrowser ev))] else [])
                @ (if truthy onReady then [Invoke onReady (ArgEvent (EvBrowser ev))] else [])
                @ (if dev then [LogScriptPerformance (scriptKey props) (getProp props ''src'')] else [])\<rparr>)"
      by (simp add: loaded h ok)
    have c: "calls loaded = calls s'
              @ (if truthy onLoad then [Invoke onLoad (ArgEvent (EvBrowser ev))] else [])
              @ (if truthy onReady then [Invoke onReady (ArgEvent (EvBrowser ev))] else [])
              @ (if dev then [LogScriptPerformance (scriptKey props) (getProp props ''src'')] else [])"
      by (simp add: fl)
    have st: "settled (promises loaded ! p) = Fulfilled ok"
      using pend by (simp add: fl resolvePromise_def)
    have e: "el < length (elements loaded)" "h_promise (elements loaded ! el) < length (promises loaded)"
      "settled (promises loaded ! h_promise (elements loaded ! el)) \<noteq> Pending"
      using x(2) pend(2) st by (simp_all add: loaded h)
    have "promises (fireLoad dev2 el ev2 loaded) = promises loaded"
      using e by (rule fireLoad_settled)
    moreover have "fireError dev2 el ev2 loaded = loaded"
      using e by (rule fireError_settled)
    moreover have "loaded = resolvePromise p ok (s'\<lparr>calls := calls loaded\<rparr>)"
      by (subst c) (rule fl)
    ultimately show ?thesis
      using st c by blast
  qed
  have throw_case: "settled (promises loaded ! p) = Pending"
    if "\<not> (returnsNormally onLoad \<and> returnsNormally onReady)"
  proof -
    from that
    have "\<not> (returnsNormally (h_onLoad (elements s' ! el)) \<and> returnsNormally (h_onReady (elements s' ! el)))"
      by (simp add: h)
    from fireLoad_throws [OF x(2) this, of dev ev] pend show ?thesis
      by (simp add: loaded)
  qed
  have fe: "failed = rejectPromise dev p err s'"
    using x(2) by (simp add: failed fireError_def h err)
  have rej: "settled (promises failed ! p)
           = Rejected (if truthy onError
                       then (case callThrows onError of Some t \<Rightarrow> WithThrown t | None \<Rightarrow> WithResponse err)
                       else WithResponse err)"
    using pend by (simp add: fe rejectPromise_def Let_def prs p)
  have rej_ok: "settled (promises failed ! p) = Rejected (WithResponse err)" if "returnsNormally onError"
    using that by (simp add: rej returnsNormally_def)
  have fe_c: "calls failed = calls s'
           @ (if dev then [LogScriptPerformance (scriptKey props) (getProp props ''src'')] else [])
           @ (if truthy onError then [Invoke onError (ArgResponse err)] else [])"
    using pend by (simp add: fe rejectPromise_def Let_def prs p)
  have e: "el < length (elements failed)" "h_promise (elements failed ! el) < length (promises failed)"
    "settled (promises failed ! h_promise (elements failed ! el)) \<noteq> Pending"
    using x(2) pend(2) rej by (simp_all add: failed h)
  have once3: "promises (fireLoad dev2 el ev2 failed) = promises failed"
    using e by (rule fireLoad_settled)
  have once4: "fireError dev2 el ev2 failed = failed"
    using e by (rule fireError_settled)
  from ret pend(1) ok_case throw_case rej rej_ok fe_c once3 once4 show ?thesis
    by blast
qed

theorem load_promise_settles_once_witness:
  "length (elements (snd (loadScript envProducts cdnProps initState))) = Suc (length (elements initState)) \<and>
   truthy (getProp cdnProps ''src'') \<and>
   returnsNormally (getProp cdnProps ''onLoad'') \<and>
   returnsNormally (withDefault (getProp cdnProps ''onReady'') JNull) \<and>
   returnsNormally (withDefault (getProp cdnProps ''onError'') JNoop) \<and>
   fst (loadScript envProducts cdnProps initState) = Follows 0 \<and>
   settled (promises (snd (loadScript envProducts cdnProps initState)) ! 0) = Pending \<and>
   settled (promises (fireLoad True 0 7 (snd (loadScript envProducts cdnProps initState))) ! 0)
     = Fulfilled \<lparr>status = True, event = EvBrowser 7\<rparr> \<and>
   calls (fireLoad True 0 7 (snd (loadScript envProducts cdnProps initState)))
     = [Invoke (JFun 11) (ArgEvent (EvBrowser 7)), Invoke (JFun 12) (ArgEvent (EvBrowser 7)),
        LogScriptPerformance ''use-load-script/scripts/cdn?script=use-load-script.js''
          (JStr ''/scripts/cdn?script=use-load-script.js'')] \<and>
   fireError False 0 8 (fireLoad True 0 7 (snd (loadScript envProducts cdnProps initState)))
     = fireLoad True 0 7 (snd (loadScript envProducts cdnProps initState)) \<and>
   settled (promises (fireError True 0 7 (snd (loadScript envProducts cdnProps initState))) ! 0)
     = Rejected (WithResponse \<lparr>status = False, event = EvBrowser 7\<rparr>) \<and>
   calls (fireError True 0 7 (snd (loadScript envProducts cdnProps initState)))
     = [LogScriptPerformance ''use-load-script/scripts/cdn?script=use-load-script.js''
          (JStr ''/scripts/cdn?script=use-load-script.js''),
        Invoke (JFun 13) (ArgResponse \<lparr>status = False, event = EvBrowser 7\<rparr>)] \<and>
   promises (fireLoad False 0 8 (fireError True 0 7 (snd (loadScript envProducts cdnProps initState))))
     = promises (fireError True 0 7 (snd (loadScript envProducts cdnProps initState)))"
proof -
  have h: "length (elements (snd (loadScript envProducts cdnProps initState))) = Suc (length (elements initState))"
    by (simp add: loadScript_eval cdnProps_def)
  have c: "calls (snd (loadScript envProducts cdnProps initState)) = []"
    using h by (simp add: loadScript_created initState_def)
  have g: "getProp cdnProps ''src'' = JStr ''/scripts/cdn?script=use-load-script.js''"
    "getProp cdnProps ''onLoad'' = JFun 11" "getProp cdnProps ''onReady'' = JFun 12"
    "getProp cdnProps ''onError'' = JFun 13"
    "scriptKey cdnProps = ''use-load-script/scripts/cdn?script=use-load-script.js''"
    by (simp_all add: getProp_def cdnProps_def scriptKey_def)
  have i: "length (elements initState) = 0" "length (promises initState) = 0"
    by (simp_all add: initState_def)
  have src: "truthy (getProp cdnProps ''src'')"
    by (simp add: g)
  have r: "returnsNormally (getProp cdnProps ''onLoad'')"
    "returnsNormally (withDefault (getProp cdnProps ''onReady'') JNull)"
    "returnsNormally (withDefault (getProp cdnProps ''onError'') JNoop)"
    by (simp_all add: g returnsNormally_def withDefault_def)
  have rr: "returnsNormally (getProp cdnProps ''onLoad'') \<and>
      returnsNormally (withDefault (getProp cdnProps ''onReady'') JNull)"
    using r by simp
  note t = load_promise_settles_once [OF h refl refl refl refl refl refl refl refl refl refl,
      of True 7 False 8]
  note ret = t [THEN conjunct1, THEN mp, OF src]
  note pend = t [THEN conjunct2, THEN conjunct2, THEN conjunct1]
  note ld = t [THEN conjunct2, THEN conjunct2, THEN conjunct2, THEN conjunct1, THEN mp, OF rr]
  note er = t [THEN conjunct2, THEN conjunct2, THEN conjunct2, THEN conjunct2, THEN conjunct2,
      THEN conjunct2]
  note er1 = er [THEN conjunct1, THEN mp, OF r(3)]
  note er2 = er [THEN conjunct2]
  from ret pend ld [THEN conjunct1] ld [THEN conjunct2, THEN conjunct1]
    ld [THEN conjunct2, THEN conjunct2, THEN conjunct2, THEN conjunct2]
    er1 er2 h src r
  show ?thesis
    by (simp add: g i c withDefault_def)
qed

section \<open>A cache entry without promise\<close>

text \<open>
  C8, as stated, fails when \<^verbatim>\<open>LoadCache\<close> has the key and no reload is due: the call
  returns \<^verbatim>\<open>"already loaded"\<close> before it looks at \<^verbatim>\<open>ScriptCache\<close>.
\<close>

theorem promise_not_found_counterexample:
  "ScriptCache strayState (scriptKey plainProps) = Some \<lparr>promise = None, script = None\<rparr> \<and>
   fst (loadScript envProducts plainProps strayState)
     = Resolved \<lparr>status = True, event = EvStr ''already loaded''\<rparr> \<and>
   fst (loadScript envProducts plainProps strayState)
     \<noteq> Resolved \<lparr>status = False, event = EvStr ''Script load promise not found''\<rparr>"
  by (simp add: loadScript_eval strayState_def plainProps_def)

text \<open>
  C8. If \<^verbatim>\<open>ScriptCache\<close> has an entry for the key that holds no promise, there are three
  cases. When the key is not taken as loaded, or a reload on navigation is due and the
  entry holds no element either, the call gets to the entry: it returns the resolved
  result \<^verbatim>\<open>{status: false, event: "Script load promise not found"}\<close>, adds the key to
  \<^verbatim>\<open>LoadCache\<close>, and creates no element, no promise and no frame callback. When the key is
  taken as loaded and no reload is due, the call returns the resolved result
  \<^verbatim>\<open>{status: true, event: "already loaded"}\<close> and changes none of these. When the key is
  taken as loaded, a reload is due and the entry holds an element, the reload purges the
  entry and queues the removal of its element, and the call goes on to create a new
  element as it does for a key without an entry.
\<close>

theorem promise_not_found:
  assumes entry: "ScriptCache s (scriptKey props) = Some c" and none: "promise c = None"
      and target: "target = withDefault (getProp props ''target'') (JStr ''body'')"
      and purged: "purged = reloadPurge target (scriptKey props) (trackPath e (scriptKey props) s)"
      and s': "s' = snd (loadScript e props s)"
  shows "(\<not> hasLoaded (scriptKey props) s \<or> (reloadOnNavigation e props s \<and> script c = None) \<longrightarrow>
            fst (loadScript e props s)
              = Resolved \<lparr>status = False, event = EvStr ''Script load promise not found''\<rparr> \<and>
            elements s' = elements s \<and> promises s' = promises s \<and> frames s' = frames s \<and>
            ScriptCache s' = ScriptCache s \<and> LoadCache s' = insert (scriptKey props) (LoadCache s)) \<and>
         (hasLoaded (scriptKey props) s \<and> \<not> reloadOnNavigation e props s \<longrightarrow>
            fst (loadScript e props s) = Resolved \<lparr>status = True, event = EvStr ''already loaded''\<rparr> \<and>
            elements s' = elements s \<and> promises s' = promises s \<and> frames s' = frames s \<and>
            ScriptCache s' = ScriptCache s \<and> LoadCache s' = LoadCache s) \<and>
         (hasLoaded (scriptKey props) s \<and> reloadOnNavigation e props s \<and> script c \<noteq> None \<longrightarrow>
            loadScript e props s
              = createScript props (scriptKey props) (startTimer e (scriptKey props) purged) \<and>
            ScriptCache purged (scriptKey props) = None \<and>
            frames purged = frames s @ [RemoveTask target (the (script c))] \<and>
            length (elements s') = Suc (length (elements s)))"
proof -
  have reached: "fst (loadScript e props s)
              = Resolved \<lparr>status = False, event = EvStr ''Script load promise not found''\<rparr> \<and>
            elements s' = elements s \<and> promises s' = promises s \<and> frames s' = frames s \<and>
            ScriptCache s' = ScriptCache s \<and> LoadCache s' = insert (scriptKey props) (LoadCache s)"
    if "\<not> hasLoaded (scriptKey props) s \<or> (reloadOnNavigation e props s \<and> script c = None)"
    unfolding s' entry_reached [OF entry that]
    using none by (simp add: inFlight_def promiseNotFound_def)
  have already: "fst (loadScript e props s) = Resolved \<lparr>status = True, event = EvStr ''already loaded''\<rparr> \<and>
            elements s' = elements s \<and> promises s' = promises s \<and> frames s' = frames s \<and>
            ScriptCache s' = ScriptCache s \<and> LoadCache s' = LoadCache s"
    if "hasLoaded (scriptKey props) s \<and> \<not> reloadOnNavigation e props s"
    using that by (simp add: s' loadScript_already alreadyLoaded_def)
  have again: "loadScript e props s
              = createScript props (scriptKey props) (startTimer e (scriptKey props) purged) \<and>
            ScriptCache purged (scriptKey props) = None \<and>
            frames purged = frames s @ [RemoveTask target (the (script c))] \<and>
            length (elements s') = Suc (length (elements s))"
    if "hasLoaded (scriptKey props) s \<and> reloadOnNavigation e props s \<and> script c \<noteq> None"
  proof -
    from that obtain old where old: "script c = Some old" by blast
    from that have l: "hasLoaded (scriptKey props) s" and r: "reloadOnNavigation e props s"
      by simp_all
    note ep = entry_purged [OF entry old l r target purged]
    have "length (elements s') = Suc (length (elements s))"
      by (simp add: s' ep(1)) (simp add: purged)
    with ep old show ?thesis by simp
  qed
  from reached already again show ?thesis by blast
qed

theorem promise_not_found_witness:
  "ScriptCache (strayState\<lparr>LoadCache := {}\<rparr>) (scriptKey plainProps) = Some \<lparr>promise = None, script = None\<rparr> \<and>
   \<not> hasLoaded (scriptKey plainProps) (strayState\<lparr>LoadCache := {}\<rparr>) \<and>
   fst (loadScript envProducts plainProps (strayState\<lparr>LoadCache := {}\<rparr>))
     = Resolved \<lparr>status = False, event = EvStr ''Script load promise not found''\<rparr> \<and>
   elements (snd (loadScript envProducts plainProps (strayState\<lparr>LoadCache := {}\<rparr>))) = [] \<and>
   hasLoaded (scriptKey plainProps) strayState \<and>
   \<not> reloadOnNavigation envProducts plainProps strayState \<and>
   fst (loadScript envProducts plainProps strayState)
     = Resolved \<lparr>status = True, event = EvStr ''already loaded''\<rparr>"
proof -
  have h: "ScriptCache (strayState\<lparr>LoadCache := {}\<rparr>) (scriptKey plainProps) = Some \<lparr>promise = None, script = None\<rparr>"
    and h': "ScriptCache strayState (scriptKey plainProps) = Some \<lparr>promise = None, script = None\<rparr>"
    by (simp_all add: strayState_def plainProps_def scriptKey_def getProp_def)
  have n: "\<not> hasLoaded (scriptKey plainProps) (strayState\<lparr>LoadCache := {}\<rparr>)"
    by (simp add: hasLoaded_def)
  have l: "hasLoaded (scriptKey plainProps) strayState"
    and r: "\<not> reloadOnNavigation envProducts plainProps strayState"
    by (simp_all add: hasLoaded_def reloadOnNavigation_def pathChanged_def strayState_def plainProps_def
        scriptKey_def getProp_def initState_def)
  have e: "elements (strayState\<lparr>LoadCache := {}\<rparr>) = []"
    by (simp add: strayState_def initState_def)
  have pn: "promise \<lparr>promise = None, script = None\<rparr> = None"
    by simp
  have d1: "\<not> hasLoaded (scriptKey plainProps) (strayState\<lparr>LoadCache := {}\<rparr>) \<or>
      (reloadOnNavigation envProducts plainProps (strayState\<lparr>LoadCache := {}\<rparr>) \<and>
       script \<lparr>promise = None, script = None\<rparr> = None)"
    using n by simp
  have d2: "hasLoaded (scriptKey plainProps) strayState \<and>
      \<not> reloadOnNavigation envProducts plainProps strayState"
    using l r by simp
  note t1 = promise_not_found [OF h pn refl refl refl, of envProducts, THEN conjunct1, THEN mp, OF d1]
  note t2 = promise_not_found [OF h' pn refl refl refl, of envProducts, THEN conjunct2, THEN conjunct1,
      THEN mp, OF d2]
  from t1 t2 h n l r e show ?thesis by simp
qed

section \<open>The spread of the descriptor\<close>




section \<open>The blocklist grows\<close>

text \<open>
  C10, as stated for any call without a source URL, fails for a call that returns before
  it creates an element: \<^verbatim>\<open>ignoreProps.push\<close> comes after both early returns. Here the
  second call has no \<^verbatim>\<open>src\<close>, its key is the one the first call loaded, and the third
  call's element still gets its \<^verbatim>\<open>async\<close> attribute.
\<close>

theorem async_defer_sticky_counterexample:
  "\<not> truthy (getProp collidingProps ''src'') \<and>
   fst (loadScript envProducts collidingProps (snd (loadScript envProducts plainProps initState)))
     = Resolved alreadyLoaded \<and>
   truthy (getProp asyncProps ''src'') \<and>
   getAttribute
     (attributes (last (elements
        (runCalls initState [(envProducts, plainProps), (envProducts, collidingProps), (envProducts, asyncProps)]))))
     ''async'' = Some (JBool True)"
  by (simp add: loadScript_eval plainProps_def collidingProps_def asyncProps_def)

text \<open>
  C10. After a \<^verbatim>\<open>loadScript\<close> call without a source URL that creates an element, \<^verbatim>\<open>async\<close>
  and \<^verbatim>\<open>defer\<close> stay in \<^verbatim>\<open>ignoreProps\<close> through any further calls, and every later call,
  with or without a source URL, does what it does for the descriptor without its \<^verbatim>\<open>async\<close>
  and \<^verbatim>\<open>defer\<close> fields: an element it creates has neither attribute (the field names
  being those of \<^verbatim>\<open>ScriptProps\<close>).
\<close>

theorem async_defer_sticky:
  assumes nosrc: "\<not> truthy (getProp props1 ''src'')"
      and created: "length (elements (snd (loadScript e1 props1 s))) = Suc (length (elements s))"
      and later: "s2 = runCalls (snd (loadScript e1 props1 s)) cs"
  shows "''async'' \<in> set (ignoreProps s2) \<and> ''defer'' \<in> set (ignoreProps s2) \<and>
         loadScript e props s2 = loadScript e (dropAsyncDefer props) s2 \<and>
         (length (elements (snd (loadScript e props s2))) = Suc (length (elements s2)) \<and>
          (\<forall>k \<in> fst ` set props. toLowerCase k \<in> {''async'', ''defer''} \<longrightarrow> k \<in> {''async'', ''defer''})
          \<longrightarrow> getAttribute (attributes (last (elements (snd (loadScript e props s2))))) ''async'' = None \<and>
              getAttribute (attributes (last (elements (snd (loadScript e props s2))))) ''defer'' = None)"
proof -
  have "ignoreProps (snd (loadScript e1 props1 s)) = ignoreProps s @ [''async'', ''defer'']"
    using created nosrc loadScript_created(1) [of e1 props1 s] by simp
  then have "{''async'', ''defer''} \<subseteq> set (ignoreProps (snd (loadScript e1 props1 s)))"
    by simp
  also have "\<dots> \<subseteq> set (ignoreProps s2)"
    unfolding later by (rule runCalls_ignoreProps_mono)
  finally have in2: "''async'' \<in> set (ignoreProps s2)" "''defer'' \<in> set (ignoreProps s2)"
    by simp_all
  have same: "loadScript e props s2 = loadScript e (dropAsyncDefer props) s2"
    using in2 by (simp add: loadScript_dropAsyncDefer)
  have none: "getAttribute (attributes (last (elements (snd (loadScript e props s2))))) ''async'' = None \<and>
              getAttribute (attributes (last (elements (snd (loadScript e props s2))))) ''defer'' = None"
    if c: "length (elements (snd (loadScript e props s2))) = Suc (length (elements s2))"
      and n: "\<forall>k \<in> fst ` set props. toLowerCase k \<in> {''async'', ''defer''} \<longrightarrow> k \<in> {''async'', ''defer''}"
  proof -
    have "last (elements (snd (loadScript e props s2))) = newElement props s2"
      using c by (rule created_last)
    moreover have "''async'' \<in> set (if truthy (getProp props ''src'') then ignoreProps s2 else ignoreProps s2 @ [''async'', ''defer''])"
      "''defer'' \<in> set (if truthy (getProp props ''src'') then ignoreProps s2 else ignoreProps s2 @ [''async'', ''defer''])"
      using in2 by simp_all
    ultimately show ?thesis
      using n by (simp add: newElement_def elementAttributes_no_async)
  qed
  from in2 same none show ?thesis by blast
qed

theorem async_defer_sticky_witness:
  "\<not> truthy (getProp inlineProps ''src'') \<and>
   length (elements (snd (loadScript envProducts inlineProps initState))) = Suc (length (elements initState)) \<and>
   truthy (getProp asyncProps ''src'') \<and>
   (''async'', JBool True) \<in> set asyncProps \<and>
   ''async'' \<in> set (ignoreProps (runCalls initState [(envProducts, inlineProps), (envProducts, plainProps)])) \<and>
   length (elements (runCalls initState [(envProducts, inlineProps), (envProducts, plainProps), (envCart, asyncProps)]))
     = Suc (length (elements (runCalls initState [(envProducts, inlineProps), (envProducts, plainProps)]))) \<and>
   getAttribute
     (attributes (last (elements
        (runCalls initState [(envProducts, inlineProps), (envProducts, plainProps), (envCart, asyncProps)]))))
     ''async'' = None"
proof -
  have h1: "\<not> truthy (getProp inlineProps ''src'')"
    by (simp add: getProp_def inlineProps_def)
  have h2: "length (elements (snd (loadScript envProducts inlineProps initState))) = Suc (length (elements initState))"
    by (simp add: loadScript_eval inlineProps_def)
  have l: "runCalls initState [(envProducts, inlineProps), (envProducts, plainProps)]
      = runCalls (snd (loadScript envProducts inlineProps initState)) [(envProducts, plainProps)]"
    by simp
  have c: "length (elements (snd (loadScript envCart asyncProps
             (runCalls initState [(envProducts, inlineProps), (envProducts, plainProps)]))))
     = Suc (length (elements (runCalls initState [(envProducts, inlineProps), (envProducts, plainProps)])))"
    by (simp add: loadScript_eval inlineProps_def plainProps_def asyncProps_def)
  have n: "\<forall>k \<in> fst ` set asyncProps. toLowerCase k \<in> {''async'', ''defer''} \<longrightarrow> k \<in> {''async'', ''defer''}"
    by (simp add: asyncProps_def toLowerCase_def lowerChar_def upperLower_def)
  have a: "truthy (getProp asyncProps ''src'')" "(''async'', JBool True) \<in> set asyncProps"
    by (simp_all add: getProp_def asyncProps_def)
  note t = async_defer_sticky [OF h1 h2 l, of envCart asyncProps]
  from t [THEN conjunct1] t [THEN conjunct2, THEN conjunct2, THEN conjunct2, THEN mp, OF conjI, OF c n]
    h1 h2 c a show ?thesis
    by simp
qed

end
